theory Spec2Isabelle
  imports Main "HOL-Library.Multiset" "HOL-Library.AList"
begin

section \<open>JavaScript primitives used by DocumentStore\<close>

text \<open>
  \<^verbatim>\<open>Array.prototype.splice(start, deleteCount, ...items)\<close>: a negative start counts from
  the end and is clamped at 0, a start beyond the length is clamped to the length, and the
  delete count is clamped to what is left after the start.
\<close>

definition splice :: "int \<Rightarrow> nat \<Rightarrow> 'a list \<Rightarrow> 'a list \<Rightarrow> 'a list" where
  "splice start deleteCount items xs =
     (let len = int (length xs);
          actualStart = nat (if start < 0 then max (len + start) 0 else min start len);
          actualDeleteCount = min deleteCount (length xs - actualStart)
      in take actualStart xs @ items @ drop (actualStart + actualDeleteCount) xs)"

text \<open>\<^verbatim>\<open>Array.prototype.indexOf\<close>: the first index holding the value, or -1.\<close>

fun indexOf :: "'a \<Rightarrow> 'a list \<Rightarrow> int" where
  "indexOf x [] = - 1"
| "indexOf x (y # ys) =
     (if y = x then 0 else (let i = indexOf x ys in if i = - 1 then - 1 else i + 1))"

text \<open>\<^verbatim>\<open>arr.slice(0, end)\<close>, with the same clamping of a negative or too large end.\<close>

definition slice0 :: "int \<Rightarrow> 'a list \<Rightarrow> 'a list" where
  "slice0 end xs =
     (let len = int (length xs)
      in take (nat (if end < 0 then max (len + end) 0 else min end len)) xs)"

text \<open>\<^verbatim>\<open>arr[i]\<close>: \<^verbatim>\<open>undefined\<close> (here \<open>None\<close>) outside the array.\<close>

definition at_index :: "'a list \<Rightarrow> int \<Rightarrow> 'a option" where
  "at_index xs i = (if 0 \<le> i \<and> i < int (length xs) then Some (xs ! nat i) else None)"

text \<open>
  A JavaScript \<^verbatim>\<open>Set\<close> of strings, as the list of its members in insertion order
  (the order \<^verbatim>\<open>Array.from\<close> reports).
\<close>

definition set_add :: "'a \<Rightarrow> 'a list \<Rightarrow> 'a list" where
  "set_add x xs = (if x \<in> set xs then xs else xs @ [x])"

definition set_delete :: "'a \<Rightarrow> 'a list \<Rightarrow> 'a list" where
  "set_delete x xs = filter (\<lambda>y. y \<noteq> x) xs"

text \<open>\<^verbatim>\<open>x || d\<close> on an optional string (absent and the empty string are falsy).\<close>

definition or_else :: "string option \<Rightarrow> string \<Rightarrow> string" where
  "or_else x d = (case x of None \<Rightarrow> d | Some v \<Rightarrow> if v = [] then d else v)"

text \<open>\<^verbatim>\<open>x || d\<close> on an optional number (absent and 0 are falsy).\<close>

definition or_else_num :: "nat option \<Rightarrow> nat \<Rightarrow> nat" where
  "or_else_num x d = (case x of None \<Rightarrow> d | Some v \<Rightarrow> if v = 0 then d else v)"

text \<open>Decimal rendering of a number inside a template string.\<close>

fun show_nat :: "nat \<Rightarrow> string" where
  "show_nat n =
     (if n < 10 then [''0123456789'' ! n]
      else show_nat (n div 10) @ [''0123456789'' ! (n mod 10)])"

declare show_nat.simps [simp del]

section \<open>Data model\<close>

text \<open>An open key/value object, as the list of its own properties.\<close>

type_synonym attrs = "(string \<times> string) list"

text \<open>\<^verbatim>\<open>{...a, ...b}\<close> on open objects: the properties of \<open>b\<close> are assigned over \<open>a\<close>.\<close>

fun assign :: "attrs \<Rightarrow> attrs \<Rightarrow> attrs" where
  "assign a [] = a"
| "assign a ((k, v) # r) = assign (AList.update k v a) r"

text \<open>
  A block as stored: the six fields every block built by \<^verbatim>\<open>addBlock\<close> has, and the
  other properties the caller's object carried.
\<close>

record block =
  b_id :: string
  b_type :: string
  b_content :: string
  b_attributes :: attrs
  b_createdAt :: nat
  b_updatedAt :: nat
  b_extra :: attrs

text \<open>
  A caller's object (\<^verbatim>\<open>blockData\<close> of \<^verbatim>\<open>addBlock\<close>, \<^verbatim>\<open>updates\<close> of
  \<^verbatim>\<open>updateBlock\<close>, an element of \<^verbatim>\<open>data.blocks\<close>): each of the six fields may be
  absent.
\<close>

record block_data =
  d_id :: "string option"
  d_type :: "string option"
  d_content :: "string option"
  d_attributes :: "attrs option"
  d_createdAt :: "nat option"
  d_updatedAt :: "nat option"
  d_extra :: attrs

text \<open>\<^verbatim>\<open>{...block, ...data}\<close>: every property present in \<open>data\<close> overrides the block's.\<close>

definition spread :: "block \<Rightarrow> block_data \<Rightarrow> block" where
  "spread b d =
     \<lparr> b_id = (case d_id d of None \<Rightarrow> b_id b | Some v \<Rightarrow> v),
       b_type = (case d_type d of None \<Rightarrow> b_type b | Some v \<Rightarrow> v),
       b_content = (case d_content d of None \<Rightarrow> b_content b | Some v \<Rightarrow> v),
       b_attributes = (case d_attributes d of None \<Rightarrow> b_attributes b | Some v \<Rightarrow> v),
       b_createdAt = (case d_createdAt d of None \<Rightarrow> b_createdAt b | Some v \<Rightarrow> v),
       b_updatedAt = (case d_updatedAt d of None \<Rightarrow> b_updatedAt b | Some v \<Rightarrow> v),
       b_extra = assign (b_extra b) (d_extra d) \<rparr>"

text \<open>
  A history entry \<^verbatim>\<open>{action, data, timestamp}\<close>. The action string and the shape of its
  data go together; \<open>OtherAction\<close> is any action string \<^verbatim>\<open>applyHistoryItem\<close> has no
  case for.
\<close>

datatype history_data =
    AddBlockData string block
  | RemoveBlockData string block
  | UpdateBlockData string block block
  | MoveBlockData string int int
  | OtherAction string

record history_item =
  h_data :: history_data
  h_timestamp :: nat

datatype meta_value = MNull | MString string | MTags "string list"

type_synonym metadata_t = "(string \<times> meta_value) list"

fun assign_meta :: "metadata_t \<Rightarrow> metadata_t \<Rightarrow> metadata_t" where
  "assign_meta a [] = a"
| "assign_meta a ((k, v) # r) = assign_meta (AList.update k v a) r"

text \<open>The object \<^verbatim>\<open>serialize\<close> returns and \<^verbatim>\<open>deserialize\<close> reads; any field may be absent.\<close>

record doc_data =
  dd_documentId :: "string option"
  dd_title :: "string option"
  dd_version :: "string option"
  dd_createdAt :: "nat option"
  dd_updatedAt :: "nat option"
  dd_metadata :: "metadata_t option"
  dd_blocks :: "block_data list option"

text \<open>\<^verbatim>\<open>this.state\<close>.\<close>

record doc_state =
  documentId :: string
  title :: string
  version :: string
  createdAt :: nat
  updatedAt :: nat
  blocks :: "string \<rightharpoonup> block"
  blockOrder :: "string list"
  selectedBlocks :: "string list"
  focusedBlock :: "string option"
  history :: "history_item list"
  historyIndex :: int
  maxHistorySize :: int
  editMode :: bool
  readOnly :: bool
  metadata :: metadata_t

text \<open>The second argument of a subscriber callback.\<close>

datatype change =
    BlockAdded string block
  | BlockRemoved string
  | BlockUpdated string block_data
  | BlockMoved string int int
  | SelectionChanged "string list"
  | FocusChanged string
  | UndoChange history_item
  | RedoChange history_item
  | DocumentLoaded doc_data
  | MetadataUpdated metadata_t
  | TitleUpdated string
  | DocumentCleared

text \<open>
  A subscriber callback reads the state and the change, acts on what lies outside the
  engine (\<open>'w\<close>: the page, a log), and either returns or throws (\<open>Some\<close> the error).
  In the operations of the engine the subscribers are readers, the engine being the only
  writer of its state; \<open>notify_live\<close> below is the notification loop for subscribers that
  write the state and the subscriber set they are handed.
\<close>

type_synonym 'w callback = "'w \<Rightarrow> doc_state \<Rightarrow> change \<Rightarrow> 'w \<times> string option"

text \<open>
  The DocumentStore object: its state, its subscribers in insertion order, the pending
  autosave timer (the time at which it fires), and, outside the object, the world the
  subscribers act on and what \<^verbatim>\<open>console.error\<close> has printed.
\<close>

record 'w store =
  state :: doc_state
  subscribers :: "'w callback list"
  autoSaveTimeout :: "nat option"
  autoSaveDelay :: nat
  world :: 'w
  console :: "string list"

datatype error = TypeError

section \<open>Construction\<close>

definition generateDocumentId :: "nat \<Rightarrow> string \<Rightarrow> string" where
  "generateDocumentId now rnd = ''doc_'' @ show_nat now @ ''_'' @ rnd"

definition generateBlockId :: "nat \<Rightarrow> string \<Rightarrow> string" where
  "generateBlockId now rnd = ''block_'' @ show_nat now @ ''_'' @ rnd"

text \<open>
  The constructor. \<open>now\<close> is what \<^verbatim>\<open>Date.now()\<close> returns and \<open>rnd\<close> the digits
  \<^verbatim>\<open>Math.random().toString(36).substr(2, 9)\<close> returns, here and in every operation
  below; the clock is read as the same value throughout one operation.
\<close>

definition constructor :: "nat \<Rightarrow> string \<Rightarrow> 'w \<Rightarrow> 'w store" where
  "constructor now rnd w =
     \<lparr> state =
         \<lparr> documentId = generateDocumentId now rnd,
           title = ''Untitled Document'',
           version = ''1.0.0'',
           createdAt = now,
           updatedAt = now,
           blocks = Map.empty,
           blockOrder = [],
           selectedBlocks = [],
           focusedBlock = None,
           history = [],
           historyIndex = - 1,
           maxHistorySize = 50,
           editMode = False,
           readOnly = False,
           metadata = [(''configuration'', MNull), (''subsystem'', MNull),
                       (''author'', MNull), (''tags'', MTags [])] \<rparr>,
       subscribers = [],
       autoSaveTimeout = None,
       autoSaveDelay = 2000,
       world = w,
       console = [] \<rparr>"

section \<open>Notification\<close>

text \<open>
  The \<^verbatim>\<open>forEach\<close> loop of \<^verbatim>\<open>notify\<close> with its \<^verbatim>\<open>try\<close>/\<^verbatim>\<open>catch\<close>: a callback that
  throws has its error printed and the loop goes on.
\<close>

fun forEach_subscribers ::
  "'w callback list \<Rightarrow> doc_state \<Rightarrow> change \<Rightarrow> 'w \<times> string list \<Rightarrow> 'w \<times> string list" where
  "forEach_subscribers [] s changes acc = acc"
| "forEach_subscribers (callback # rest) s changes (w, out) =
     (case callback w s changes of
        (w', None) \<Rightarrow> forEach_subscribers rest s changes (w', out)
      | (w', Some err) \<Rightarrow>
          forEach_subscribers rest s changes
            (w', out @ [''Error in subscriber callback: '' @ err]))"

definition scheduleAutoSave :: "nat \<Rightarrow> 'w store \<Rightarrow> 'w store" where
  "scheduleAutoSave now st = st\<lparr>autoSaveTimeout := Some (now + autoSaveDelay st)\<rparr>"

definition notify :: "nat \<Rightarrow> change \<Rightarrow> 'w store \<Rightarrow> 'w store" where
  "notify now changes st =
     (let s = (state st)\<lparr>updatedAt := now\<rparr>;
          r = forEach_subscribers (subscribers st) s changes (world st, console st)
      in scheduleAutoSave now (st\<lparr>state := s, world := fst r, console := snd r\<rparr>))"

section \<open>History\<close>

definition saveToHistory :: "nat \<Rightarrow> history_data \<Rightarrow> doc_state \<Rightarrow> doc_state" where
  "saveToHistory now d s =
     (let h = slice0 (historyIndex s + 1) (history s)
                @ [\<lparr>h_data = d, h_timestamp = now\<rparr>]
      in if int (length h) > maxHistorySize s
         then s\<lparr>history := tl h\<rparr>
         else s\<lparr>history := h, historyIndex := historyIndex s + 1\<rparr>)"

definition applyHistoryItem :: "history_item \<Rightarrow> bool \<Rightarrow> doc_state \<Rightarrow> doc_state" where
  "applyHistoryItem historyItem reverse s =
     (case h_data historyItem of
        AddBlockData blockId block \<Rightarrow>
          if reverse
          then s\<lparr>blocks := (blocks s)(blockId := None),
                 blockOrder := filter (\<lambda>i. i \<noteq> blockId) (blockOrder s)\<rparr>
          else s\<lparr>blocks := (blocks s)(blockId \<mapsto> block),
                 blockOrder := blockOrder s @ [blockId]\<rparr>
      | RemoveBlockData blockId block \<Rightarrow>
          if reverse
          then s\<lparr>blocks := (blocks s)(blockId \<mapsto> block),
                 blockOrder := blockOrder s @ [blockId]\<rparr>
          else s\<lparr>blocks := (blocks s)(blockId := None),
                 blockOrder := filter (\<lambda>i. i \<noteq> blockId) (blockOrder s)\<rparr>
      | UpdateBlockData blockId oldBlock newBlock \<Rightarrow>
          if reverse
          then s\<lparr>blocks := (blocks s)(blockId \<mapsto> oldBlock)\<rparr>
          else s\<lparr>blocks := (blocks s)(blockId \<mapsto> newBlock)\<rparr>
      | MoveBlockData blockId from to \<Rightarrow>
          (let currentIndex = indexOf blockId (blockOrder s)
           in s\<lparr>blockOrder :=
                  splice (if reverse then from else to) 0 [blockId]
                    (splice currentIndex 1 [] (blockOrder s))\<rparr>)
      | OtherAction a \<Rightarrow> s)"

text \<open>
  \<^verbatim>\<open>undo\<close> and \<^verbatim>\<open>redo\<close> read \<^verbatim>\<open>history[historyIndex]\<close>; destructuring
  \<^verbatim>\<open>undefined\<close> in \<^verbatim>\<open>applyHistoryItem\<close> throws a TypeError.
\<close>

definition undo :: "nat \<Rightarrow> 'w store \<Rightarrow> error + bool \<times> 'w store" where
  "undo now st =
     (let s = state st
      in if historyIndex s < 0 then Inr (False, st)
         else case at_index (history s) (historyIndex s) of
                None \<Rightarrow> Inl TypeError
              | Some historyItem \<Rightarrow>
                  (let s1 = applyHistoryItem historyItem True s;
                       s2 = s1\<lparr>historyIndex := historyIndex s1 - 1\<rparr>
                   in Inr (True, notify now (UndoChange historyItem) (st\<lparr>state := s2\<rparr>))))"

definition redo :: "nat \<Rightarrow> 'w store \<Rightarrow> error + bool \<times> 'w store" where
  "redo now st =
     (let s = state st
      in if historyIndex s \<ge> int (length (history s)) - 1 then Inr (False, st)
         else (let s1 = s\<lparr>historyIndex := historyIndex s + 1\<rparr>
               in case at_index (history s1) (historyIndex s1) of
                    None \<Rightarrow> Inl TypeError
                  | Some historyItem \<Rightarrow>
                      (let s2 = applyHistoryItem historyItem False s1
                       in Inr (True, notify now (RedoChange historyItem)
                                       (st\<lparr>state := s2\<rparr>)))))"

section \<open>Block operations\<close>

definition addBlock ::
  "nat \<Rightarrow> string \<Rightarrow> block_data \<Rightarrow> int option \<Rightarrow> 'w store \<Rightarrow> string \<times> 'w store" where
  "addBlock now rnd blockData position st =
     (let blockId = or_else (d_id blockData) (generateBlockId now rnd);
          block = spread
                    \<lparr> b_id = blockId,
                      b_type = or_else (d_type blockData) ''text-block'',
                      b_content = or_else (d_content blockData) '''',
                      b_attributes = (case d_attributes blockData of None \<Rightarrow> [] | Some a \<Rightarrow> a),
                      b_createdAt = now,
                      b_updatedAt = now,
                      b_extra = [] \<rparr>
                    blockData;
          s = state st;
          s1 = s\<lparr>blocks := (blocks s)(blockId \<mapsto> block)\<rparr>;
          s2 = (case position of
                  None \<Rightarrow> s1\<lparr>blockOrder := blockOrder s1 @ [blockId]\<rparr>
                | Some p \<Rightarrow>
                    if p \<ge> 0 \<and> p \<le> int (length (blockOrder s1))
                    then s1\<lparr>blockOrder := splice p 0 [blockId] (blockOrder s1)\<rparr>
                    else s1\<lparr>blockOrder := blockOrder s1 @ [blockId]\<rparr>);
          s3 = saveToHistory now (AddBlockData blockId block) s2
      in (blockId, notify now (BlockAdded blockId block) (st\<lparr>state := s3\<rparr>)))"

definition removeBlock :: "nat \<Rightarrow> string \<Rightarrow> 'w store \<Rightarrow> bool \<times> 'w store" where
  "removeBlock now blockId st =
     (let s = state st
      in case blocks s blockId of
           None \<Rightarrow> (False, st)
         | Some block \<Rightarrow>
             (let s1 = s\<lparr>blocks := (blocks s)(blockId := None),
                         blockOrder := filter (\<lambda>i. i \<noteq> blockId) (blockOrder s),
                         selectedBlocks := set_delete blockId (selectedBlocks s)\<rparr>;
                  s2 = (if focusedBlock s1 = Some blockId
                        then s1\<lparr>focusedBlock := None\<rparr> else s1);
                  s3 = saveToHistory now (RemoveBlockData blockId block) s2
              in (True, notify now (BlockRemoved blockId) (st\<lparr>state := s3\<rparr>))))"

definition updateBlock :: "nat \<Rightarrow> string \<Rightarrow> block_data \<Rightarrow> 'w store \<Rightarrow> bool \<times> 'w store" where
  "updateBlock now blockId updates st =
     (let s = state st
      in case blocks s blockId of
           None \<Rightarrow> (False, st)
         | Some block \<Rightarrow>
             (let oldBlock = block;
                  updatedBlock = (spread block updates)\<lparr>b_updatedAt := now\<rparr>;
                  s1 = s\<lparr>blocks := (blocks s)(blockId \<mapsto> updatedBlock)\<rparr>;
                  s2 = saveToHistory now (UpdateBlockData blockId oldBlock updatedBlock) s1
              in (True, notify now (BlockUpdated blockId updates) (st\<lparr>state := s2\<rparr>))))"

definition getBlock :: "string \<Rightarrow> 'w store \<Rightarrow> block option" where
  "getBlock blockId st = blocks (state st) blockId"

definition getBlocks :: "doc_state \<Rightarrow> block list" where
  "getBlocks s = List.map_filter (blocks s) (blockOrder s)"

definition moveBlock :: "nat \<Rightarrow> string \<Rightarrow> int \<Rightarrow> 'w store \<Rightarrow> bool \<times> 'w store" where
  "moveBlock now blockId newPosition st =
     (let s = state st;
          currentIndex = indexOf blockId (blockOrder s)
      in if currentIndex = - 1 then (False, st)
         else (let s1 = s\<lparr>blockOrder :=
                           splice newPosition 0 [blockId]
                             (splice currentIndex 1 [] (blockOrder s))\<rparr>;
                   s2 = saveToHistory now (MoveBlockData blockId currentIndex newPosition) s1
               in (True, notify now (BlockMoved blockId currentIndex newPosition)
                                (st\<lparr>state := s2\<rparr>))))"

section \<open>Selection and focus\<close>

definition selectBlock :: "nat \<Rightarrow> string \<Rightarrow> bool \<Rightarrow> 'w store \<Rightarrow> 'w store" where
  "selectBlock now blockId multiSelect st =
     (let s = state st;
          s1 = (if \<not> multiSelect then s\<lparr>selectedBlocks := []\<rparr> else s);
          s2 = s1\<lparr>selectedBlocks := set_add blockId (selectedBlocks s1)\<rparr>
      in notify now (SelectionChanged (selectedBlocks s2)) (st\<lparr>state := s2\<rparr>))"

definition deselectBlock :: "nat \<Rightarrow> string \<Rightarrow> 'w store \<Rightarrow> 'w store" where
  "deselectBlock now blockId st =
     (let s = state st;
          s1 = s\<lparr>selectedBlocks := set_delete blockId (selectedBlocks s)\<rparr>
      in notify now (SelectionChanged (selectedBlocks s1)) (st\<lparr>state := s1\<rparr>))"

definition clearSelection :: "nat \<Rightarrow> 'w store \<Rightarrow> 'w store" where
  "clearSelection now st =
     notify now (SelectionChanged []) (st\<lparr>state := (state st)\<lparr>selectedBlocks := []\<rparr>\<rparr>)"

definition focusBlock :: "nat \<Rightarrow> string \<Rightarrow> 'w store \<Rightarrow> 'w store" where
  "focusBlock now blockId st =
     notify now (FocusChanged blockId)
       (st\<lparr>state := (state st)\<lparr>focusedBlock := Some blockId\<rparr>\<rparr>)"

section \<open>Serialization\<close>

definition serialize_block :: "block \<Rightarrow> block_data" where
  "serialize_block block =
     \<lparr> d_id = Some (b_id block),
       d_type = Some (b_type block),
       d_content = Some (b_content block),
       d_attributes = Some (b_attributes block),
       d_createdAt = Some (b_createdAt block),
       d_updatedAt = Some (b_updatedAt block),
       d_extra = [] \<rparr>"

definition serialize :: "doc_state \<Rightarrow> doc_data" where
  "serialize s =
     \<lparr> dd_documentId = Some (documentId s),
       dd_title = Some (title s),
       dd_version = Some (version s),
       dd_createdAt = Some (createdAt s),
       dd_updatedAt = Some (updatedAt s),
       dd_metadata = Some (metadata s),
       dd_blocks = Some (map serialize_block (getBlocks s)) \<rparr>"

text \<open>
  The \<^verbatim>\<open>data.blocks.forEach(blockData => this.addBlock(blockData))\<close> loop of
  \<^verbatim>\<open>deserialize\<close>; \<open>env i\<close> is the clock and the random digits of the \<open>i\<close>-th call.
\<close>

fun addBlocks ::
  "(nat \<Rightarrow> nat \<times> string) \<Rightarrow> nat \<Rightarrow> block_data list \<Rightarrow> 'w store \<Rightarrow> 'w store" where
  "addBlocks env i [] st = st"
| "addBlocks env i (blockData # rest) st =
     addBlocks env (Suc i) rest (snd (addBlock (fst (env i)) (snd (env i)) blockData None st))"

definition deserialize ::
  "nat \<Rightarrow> string \<Rightarrow> (nat \<Rightarrow> nat \<times> string) \<Rightarrow> doc_data \<Rightarrow> 'w store \<Rightarrow> 'w store" where
  "deserialize now rnd env data st =
     (let s = state st;
          s1 = s\<lparr>documentId := or_else (dd_documentId data) (generateDocumentId now rnd),
                 title := or_else (dd_title data) ''Untitled Document'',
                 version := or_else (dd_version data) ''1.0.0'',
                 createdAt := or_else_num (dd_createdAt data) now,
                 updatedAt := or_else_num (dd_updatedAt data) now,
                 metadata := (case dd_metadata data of None \<Rightarrow> [] | Some m \<Rightarrow> m),
                 blocks := Map.empty,
                 blockOrder := []\<rparr>;
          st1 = st\<lparr>state := s1\<rparr>;
          st2 = (case dd_blocks data of None \<Rightarrow> st1 | Some bs \<Rightarrow> addBlocks env 0 bs st1)
      in notify now (DocumentLoaded data) st2)"

section \<open>Metadata and utilities\<close>

definition updateMetadata :: "nat \<Rightarrow> metadata_t \<Rightarrow> 'w store \<Rightarrow> 'w store" where
  "updateMetadata now m st =
     (let s = (state st)\<lparr>metadata := assign_meta (metadata (state st)) m\<rparr>
      in notify now (MetadataUpdated (metadata s)) (st\<lparr>state := s\<rparr>))"

definition setTitle :: "nat \<Rightarrow> string \<Rightarrow> 'w store \<Rightarrow> 'w store" where
  "setTitle now t st = notify now (TitleUpdated t) (st\<lparr>state := (state st)\<lparr>title := t\<rparr>\<rparr>)"

definition clear :: "nat \<Rightarrow> 'w store \<Rightarrow> 'w store" where
  "clear now st =
     notify now DocumentCleared
       (st\<lparr>state := (state st)\<lparr>blocks := Map.empty,
                                 blockOrder := [],
                                 selectedBlocks := [],
                                 focusedBlock := None,
                                 history := [],
                                 historyIndex := - 1\<rparr>\<rparr>)"

section \<open>Invariants and example stores\<close>

text \<open>The history cursor lies between -1 and the index of the last entry.\<close>

definition cursor_inv :: "doc_state \<Rightarrow> bool" where
  "cursor_inv s \<longleftrightarrow> - 1 \<le> historyIndex s \<and> historyIndex s \<le> int (length (history s)) - 1"

text \<open>The caller's object \<^verbatim>\<open>{id: i, content: c}\<close>.\<close>

definition block_with :: "string \<Rightarrow> string \<Rightarrow> block_data" where
  "block_with i c =
     \<lparr> d_id = Some i, d_type = None, d_content = Some c, d_attributes = None,
       d_createdAt = None, d_updatedAt = None, d_extra = [] \<rparr>"

text \<open>A store with no subscriber and the two blocks \<open>a\<close>, \<open>b\<close>, added in this order.\<close>

definition demo :: "unit store" where
  "demo = snd (addBlock 2 ''r2'' (block_with ''b'' ''B'') None
            (snd (addBlock 1 ''r1'' (block_with ''a'' ''A'') None (constructor 0 ''r0'' ()))))"

text \<open>The cursor is in its range and the history is within its bound.\<close>

definition hist_inv :: "doc_state \<Rightarrow> bool" where
  "hist_inv s \<longleftrightarrow> cursor_inv s \<and> int (length (history s)) \<le> maxHistorySize s"

text \<open>
  A caller that calls \<^verbatim>\<open>undo()\<close> once per given clock value, stopping as soon as it
  returns false, and counts the calls that returned true.
\<close>

fun undo_times :: "nat list \<Rightarrow> 'w store \<Rightarrow> error + nat \<times> 'w store" where
  "undo_times [] st = Inr (0, st)"
| "undo_times (now # nows) st =
     (case undo now st of
        Inl e \<Rightarrow> Inl e
      | Inr (r, st') \<Rightarrow>
          if r then (case undo_times nows st' of
                       Inl e \<Rightarrow> Inl e
                     | Inr (k, st'') \<Rightarrow> Inr (Suc k, st''))
          else Inr (0, st'))"

text \<open>The four mutations, and a call of one of them with its result.\<close>

datatype mutation =
    AddBlockOp block_data "int option"
  | RemoveBlockOp string
  | UpdateBlockOp string block_data
  | MoveBlockOp string int

definition perform :: "nat \<Rightarrow> string \<Rightarrow> mutation \<Rightarrow> 'w store \<Rightarrow> bool \<times> 'w store" where
  "perform now rnd m st =
     (case m of
        AddBlockOp blockData position \<Rightarrow> (True, snd (addBlock now rnd blockData position st))
      | RemoveBlockOp blockId \<Rightarrow> removeBlock now blockId st
      | UpdateBlockOp blockId updates \<Rightarrow> updateBlock now blockId updates st
      | MoveBlockOp blockId newPosition \<Rightarrow> moveBlock now blockId newPosition st)"

text \<open>
  The public operations that write the state, and one call: the operation with the clock
  and random digits it reads (\<open>c_env\<close> for the \<^verbatim>\<open>addBlock\<close> calls inside
  \<^verbatim>\<open>deserialize\<close>).
\<close>

datatype operation =
    Mutate mutation
  | SelectBlock string bool
  | DeselectBlock string
  | ClearSelection
  | FocusBlock string
  | SaveToHistory history_data
  | Undo
  | Redo
  | Deserialize doc_data
  | UpdateMetadata metadata_t
  | SetTitle string
  | Clear

record call =
  c_op :: operation
  c_now :: nat
  c_rnd :: string
  c_env :: "nat \<Rightarrow> nat \<times> string"

definition exec :: "call \<Rightarrow> 'w store \<Rightarrow> error + 'w store" where
  "exec c st =
     (case c_op c of
        Mutate m \<Rightarrow> Inr (snd (perform (c_now c) (c_rnd c) m st))
      | SelectBlock blockId multiSelect \<Rightarrow> Inr (selectBlock (c_now c) blockId multiSelect st)
      | DeselectBlock blockId \<Rightarrow> Inr (deselectBlock (c_now c) blockId st)
      | ClearSelection \<Rightarrow> Inr (clearSelection (c_now c) st)
      | FocusBlock blockId \<Rightarrow> Inr (focusBlock (c_now c) blockId st)
      | SaveToHistory d \<Rightarrow> Inr (st\<lparr>state := saveToHistory (c_now c) d (state st)\<rparr>)
      | Undo \<Rightarrow> (case undo (c_now c) st of Inl e \<Rightarrow> Inl e | Inr (r, st') \<Rightarrow> Inr st')
      | Redo \<Rightarrow> (case redo (c_now c) st of Inl e \<Rightarrow> Inl e | Inr (r, st') \<Rightarrow> Inr st')
      | Deserialize data \<Rightarrow> Inr (deserialize (c_now c) (c_rnd c) (c_env c) data st)
      | UpdateMetadata m \<Rightarrow> Inr (updateMetadata (c_now c) m st)
      | SetTitle t \<Rightarrow> Inr (setTitle (c_now c) t st)
      | Clear \<Rightarrow> Inr (clear (c_now c) st))"

text \<open>A sequence of calls; an exception ends it.\<close>

fun run :: "call list \<Rightarrow> 'w store \<Rightarrow> error + 'w store" where
  "run [] st = Inr st"
| "run (c # cs) st = (case exec c st of Inl e \<Rightarrow> Inl e | Inr st' \<Rightarrow> run cs st')"

text \<open>A store just constructed.\<close>

definition fresh :: "unit store" where
  "fresh = constructor 0 ''r0'' ()"

text \<open>A store whose history holds 50 entries, the cursor on the last.\<close>

definition full :: "unit store" where
  "full = demo\<lparr>state := (state demo)
            \<lparr>history := replicate 50 \<lparr>h_data = OtherAction ''x'', h_timestamp = 1\<rparr>,
             historyIndex := 49\<rparr>\<rparr>"

text \<open>
  The ordering index and the block store agree: no identity twice in the index, and the
  identities of the index are the keys of the store.
\<close>

definition store_inv :: "doc_state \<Rightarrow> bool" where
  "store_inv s \<longleftrightarrow> distinct (blockOrder s) \<and> set (blockOrder s) = dom (blocks s)"

text \<open>For an \<^verbatim>\<open>addBlock\<close> call: the identity it will use is not a key of the store.\<close>

definition fresh_add :: "nat \<Rightarrow> string \<Rightarrow> mutation \<Rightarrow> doc_state \<Rightarrow> bool" where
  "fresh_add now rnd m s =
     (case m of
        AddBlockOp blockData position \<Rightarrow>
          or_else (d_id blockData) (generateBlockId now rnd) \<notin> dom (blocks s)
      | _ \<Rightarrow> True)"

text \<open>
  A sequence of mutations, each with the clock and random digits it reads: the stores
  after each of them, and whether every \<^verbatim>\<open>addBlock\<close> of the sequence used a new identity.
\<close>

fun states_after :: "(mutation \<times> nat \<times> string) list \<Rightarrow> 'w store \<Rightarrow> 'w store list" where
  "states_after [] st = []"
| "states_after ((m, now, rnd) # rest) st =
     snd (perform now rnd m st) # states_after rest (snd (perform now rnd m st))"

fun fresh_adds :: "(mutation \<times> nat \<times> string) list \<Rightarrow> 'w store \<Rightarrow> bool" where
  "fresh_adds [] st = True"
| "fresh_adds ((m, now, rnd) # rest) st =
     (fresh_add now rnd m (state st) \<and> fresh_adds rest (snd (perform now rnd m st)))"

text \<open>The store after \<^verbatim>\<open>addBlock({id: 'a', content: 'A'})\<close> and then
  \<^verbatim>\<open>addBlock({id: 'a', content: 'A2'})\<close> on a new store.\<close>

definition twice :: "unit store" where
  "twice = snd (addBlock 2 ''r2'' (block_with ''a'' ''A2'') None
             (snd (addBlock 1 ''r1'' (block_with ''a'' ''A'') None fresh)))"

text \<open>The position given to \<^verbatim>\<open>addBlock\<close> makes it put the identity at the end of an index
  of length \<open>n\<close>: no position, or one outside \<open>0..n-1\<close>.\<close>

definition appends :: "int option \<Rightarrow> nat \<Rightarrow> bool" where
  "appends position n =
     (case position of None \<Rightarrow> True | Some p \<Rightarrow> \<not> (0 \<le> p \<and> p < int n))"

text \<open>For an \<^verbatim>\<open>addBlock\<close> call: it puts the identity at the end of the index.\<close>

definition at_end :: "mutation \<Rightarrow> doc_state \<Rightarrow> bool" where
  "at_end m s =
     (case m of
        AddBlockOp blockData position \<Rightarrow> appends position (length (blockOrder s))
      | _ \<Rightarrow> True)"

text \<open>A call of an operation at a given clock value.\<close>

definition call_of :: "operation \<Rightarrow> nat \<Rightarrow> call" where
  "call_of op now = \<lparr>c_op = op, c_now = now, c_rnd = ''r'', c_env = (\<lambda>i. (now, ''r''))\<rparr>"

text \<open>
  Every block listed in the ordering index carries, as its \<open>id\<close> field, the non-empty key
  it is stored under.
\<close>

definition ids_ok :: "doc_state \<Rightarrow> bool" where
  "ids_ok s =
     list_all (\<lambda>k. case blocks s k of None \<Rightarrow> True | Some b \<Rightarrow> b_id b = k \<and> k \<noteq> [])
       (blockOrder s)"

text \<open>The store \<open>demo\<close> after \<^verbatim>\<open>updateBlock('b', {id: 'a', content: 'Z'})\<close>.\<close>

definition renamed :: "unit store" where
  "renamed = snd (updateBlock 3 ''b'' (block_with ''a'' ''Z'') demo)"

section \<open>Notification with subscribers that write\<close>

text \<open>
  \<^verbatim>\<open>notify\<close> hands every callback the live \<^verbatim>\<open>this.state\<close> and walks the live
  \<^verbatim>\<open>this.subscribers\<close>. A subscriber as the code admits it: a function object (with its
  reference, by which the \<^verbatim>\<open>Set\<close> tells members apart) that, called with the state and
  the change, acts on the world outside, leaves the state as it wrote it, may have added
  or deleted members of the subscriber set, and returns or throws.
\<close>

datatype 'c set_action = SetAdd 'c | SetDelete nat

datatype 'w observer =
  Observer (ob_ref: nat) (ob_react: "'w \<times> doc_state \<times> change \<Rightarrow> 'w reaction")
and 'w reaction =
  Reaction (r_world: 'w) (r_state: doc_state)
    (r_actions: "'w observer set_action list") (r_thrown: "string option")

text \<open>
  The entries of a \<^verbatim>\<open>Set\<close> while \<^verbatim>\<open>forEach\<close> walks it: insertion order, a deleted
  entry left empty (\<open>None\<close>) in its place, an added value appended unless it is a member.
\<close>

definition live_add :: "'w observer \<Rightarrow> 'w observer option list \<Rightarrow> 'w observer option list" where
  "live_add ob slots =
     (if ob_ref ob \<in> ob_ref ` set (List.map_filter id slots) then slots else slots @ [Some ob])"

definition live_delete :: "nat \<Rightarrow> 'w observer option list \<Rightarrow> 'w observer option list" where
  "live_delete r slots =
     map (\<lambda>e. case e of None \<Rightarrow> None
               | Some ob \<Rightarrow> if ob_ref ob = r then None else Some ob) slots"

fun apply_actions ::
  "'w observer set_action list \<Rightarrow> 'w observer option list \<Rightarrow> 'w observer option list" where
  "apply_actions [] slots = slots"
| "apply_actions (SetAdd ob # rest) slots = apply_actions rest (live_add ob slots)"
| "apply_actions (SetDelete r # rest) slots = apply_actions rest (live_delete r slots)"

text \<open>
  The \<^verbatim>\<open>forEach\<close> loop of \<^verbatim>\<open>notify\<close> over the live set, from entry \<open>i\<close> on. Each
  callback gets the state as the callbacks before it left it; a throw is caught and
  printed. Subscribers that keep adding subscribers keep the loop going: it is given
  fuel, and \<open>None\<close> is the loop that has not ended when the fuel is spent.
\<close>

fun forEach_live ::
  "nat \<Rightarrow> 'w observer option list \<Rightarrow> nat \<Rightarrow> doc_state \<Rightarrow> change \<Rightarrow> 'w \<Rightarrow> string list
     \<Rightarrow> ('w observer option list \<times> doc_state \<times> 'w \<times> string list) option" where
  "forEach_live 0 slots i s changes w out =
     (if length slots \<le> i then Some (slots, s, w, out) else None)"
| "forEach_live (Suc fuel) slots i s changes w out =
     (if length slots \<le> i then Some (slots, s, w, out)
      else case slots ! i of
             None \<Rightarrow> forEach_live fuel slots (Suc i) s changes w out
           | Some ob \<Rightarrow>
               (let r = ob_react ob (w, s, changes)
                in forEach_live fuel (apply_actions (r_actions r) slots) (Suc i)
                     (r_state r) changes (r_world r)
                     (case r_thrown r of
                        None \<Rightarrow> out
                      | Some err \<Rightarrow> out @ [''Error in subscriber callback: '' @ err])))"

text \<open>The DocumentStore object with such subscribers.\<close>

record 'w live_store =
  ls_state :: doc_state
  ls_subscribers :: "'w observer list"
  ls_autoSaveTimeout :: "nat option"
  ls_autoSaveDelay :: nat
  ls_world :: 'w
  ls_console :: "string list"

definition subscribe :: "'w observer \<Rightarrow> 'w live_store \<Rightarrow> 'w live_store" where
  "subscribe callback st =
     (if ob_ref callback \<in> ob_ref ` set (ls_subscribers st) then st
      else st\<lparr>ls_subscribers := ls_subscribers st @ [callback]\<rparr>)"

text \<open>The function \<^verbatim>\<open>subscribe\<close> returns: it deletes the callback from the set.\<close>

definition unsubscribe :: "'w observer \<Rightarrow> 'w live_store \<Rightarrow> 'w live_store" where
  "unsubscribe callback st =
     st\<lparr>ls_subscribers := filter (\<lambda>ob. ob_ref ob \<noteq> ob_ref callback) (ls_subscribers st)\<rparr>"

definition notify_live :: "nat \<Rightarrow> nat \<Rightarrow> change \<Rightarrow> 'w live_store \<Rightarrow> 'w live_store option" where
  "notify_live fuel now changes st =
     (case forEach_live fuel (map Some (ls_subscribers st)) 0
             ((ls_state st)\<lparr>updatedAt := now\<rparr>) changes (ls_world st) (ls_console st) of
        None \<Rightarrow> None
      | Some (slots, s, w, out) \<Rightarrow>
          Some (st\<lparr>ls_state := s,
                    ls_subscribers := List.map_filter id slots,
                    ls_world := w,
                    ls_console := out,
                    ls_autoSaveTimeout := Some (now + ls_autoSaveDelay st)\<rparr>))"

text \<open>The same subscriber, were its callback never to throw.\<close>

primrec mute :: "'w observer \<Rightarrow> 'w observer"
  and mute_reaction :: "'w reaction \<Rightarrow> 'w reaction" where
  "mute (Observer r f) = Observer r (\<lambda>x. mute_reaction (f x))"
| "mute_reaction (Reaction w s acts err) = Reaction w s (map (map_set_action mute) acts) None"




text \<open>
  A reading callback as a subscriber, and a store with reading callbacks as a store with
  subscribers (the references are the positions in the list).
\<close>

definition observer_of :: "nat \<Rightarrow> 'w callback \<Rightarrow> 'w observer" where
  "observer_of r callback =
     Observer r (\<lambda>(w, s, changes).
       Reaction (fst (callback w s changes)) s [] (snd (callback w s changes)))"

definition live_of :: "'w store \<Rightarrow> 'w live_store" where
  "live_of st =
     \<lparr> ls_state = state st,
       ls_subscribers = map (\<lambda>(r, callback). observer_of r callback)
                          (zip [0 ..< length (subscribers st)] (subscribers st)),
       ls_autoSaveTimeout = autoSaveTimeout st,
       ls_autoSaveDelay = autoSaveDelay st,
       ls_world = world st,
       ls_console = console st \<rparr>"






section \<open>Basic facts\<close>

lemmas eval_defs =
  addBlock_def removeBlock_def updateBlock_def moveBlock_def constructor_def notify_def
  scheduleAutoSave_def saveToHistory_def applyHistoryItem_def undo_def redo_def
  or_else_def or_else_num_def spread_def slice0_def splice_def at_index_def set_add_def
  set_delete_def block_with_def serialize_def serialize_block_def getBlocks_def
  List.map_filter_def Let_def

lemma state_notify: "state (notify now ch st) = (state st)\<lparr>updatedAt := now\<rparr>"
  by (simp add: notify_def scheduleAutoSave_def Let_def)

lemma subscribers_notify: "subscribers (notify now ch st) = subscribers st"
  by (simp add: notify_def scheduleAutoSave_def Let_def)

lemma saveToHistory_frame:
  "blocks (saveToHistory now d s) = blocks s"
  "blockOrder (saveToHistory now d s) = blockOrder s"
  "selectedBlocks (saveToHistory now d s) = selectedBlocks s"
  "focusedBlock (saveToHistory now d s) = focusedBlock s"
  "maxHistorySize (saveToHistory now d s) = maxHistorySize s"
  "metadata (saveToHistory now d s) = metadata s"
  by (simp_all add: saveToHistory_def Let_def)

lemma applyHistoryItem_history:
  "history (applyHistoryItem item r s) = history s"
  "historyIndex (applyHistoryItem item r s) = historyIndex s"
  "maxHistorySize (applyHistoryItem item r s) = maxHistorySize s"
  by (simp_all add: applyHistoryItem_def Let_def split: history_data.splits)

lemma demo_order: "blockOrder (state demo) = [''a'', ''b'']"
  by (simp add: demo_def eval_defs)

lemma demo_cursor: "historyIndex (state demo) = 1" "length (history (state demo)) = 2"
  by (simp_all add: demo_def eval_defs)

lemma demo_blocks:
  "blocks (state demo) ''a'' \<noteq> None" "blocks (state demo) ''b'' \<noteq> None"
  "blocks (state demo) ''c'' = None"
  by (simp_all add: demo_def eval_defs)

subsection \<open>Arrays\<close>

lemma indexOf_ge: "- 1 \<le> indexOf x xs"
  by (induction xs) (auto simp: Let_def)

lemma indexOf_neg_iff: "indexOf x xs = - 1 \<longleftrightarrow> x \<notin> set xs"
proof (induction xs)
  case Nil
  show ?case by simp
next
  case (Cons y ys)
  have "- 1 \<le> indexOf x ys" by (rule indexOf_ge)
  with Cons show ?case by (auto simp: Let_def)
qed

lemma indexOf_append_fresh: "x \<notin> set ys \<Longrightarrow> indexOf x (ys @ x # zs) = int (length ys)"
  by (induction ys) (auto simp: Let_def)

lemma indexOf_split:
  assumes "x \<in> set xs"
  shows "\<exists>ys zs. xs = ys @ x # zs \<and> x \<notin> set ys \<and> indexOf x xs = int (length ys)"
proof -
  from split_list_first [OF assms] obtain ys zs where *: "xs = ys @ x # zs" "x \<notin> set ys"
    by blast
  from *(2) have "indexOf x (ys @ x # zs) = int (length ys)"
    by (rule indexOf_append_fresh)
  with * show ?thesis by blast
qed

lemma splice_remove_at: "splice (int (length ys)) 1 [] (ys @ x # zs) = ys @ zs"
  by (simp add: splice_def Let_def)

lemma splice_insert:
  "splice p 0 [x] xs =
     take (nat (if p < 0 then max (int (length xs) + p) 0 else min p (int (length xs)))) xs @ x #
     drop (nat (if p < 0 then max (int (length xs) + p) 0 else min p (int (length xs)))) xs"
  by (simp add: splice_def Let_def)

lemma mset_take_drop: "mset (take n xs) + mset (drop n xs) = mset xs"
proof -
  have "mset (take n xs @ drop n xs) = mset xs" by simp
  then show ?thesis by (simp only: mset_append)
qed

lemma mset_splice_insert: "mset (splice p 0 [x] xs) = add_mset x (mset xs)"
  unfolding splice_insert by (simp add: mset_take_drop)

lemma splice_insert_at: "splice (int (length ys)) 0 [x] (ys @ zs) = ys @ x # zs"
  by (simp add: splice_def Let_def)

lemma mset_move:
  assumes "x \<in> set xs"
  shows "mset (splice p 0 [x] (splice (indexOf x xs) 1 [] xs)) = mset xs"
proof -
  from indexOf_split [OF assms] obtain ys zs
    where xs: "xs = ys @ x # zs" and i: "indexOf x xs = int (length ys)" by blast
  have "splice (indexOf x xs) 1 [] xs = ys @ zs"
    unfolding i unfolding xs by (rule splice_remove_at)
  then show ?thesis by (simp add: mset_splice_insert xs)
qed

section \<open>removeBlock\<close>

text \<open>
  Claim C5. \<^verbatim>\<open>removeBlock\<close> of an identity absent from the block store returns false and
  leaves the whole store object as it was. Of an identity that is present it returns true,
  deletes the block from the store and every occurrence of the identity from the ordering
  index, removes it from the selection, and clears the focus if the block was the focused
  one (any other focus is kept).
\<close>

theorem removeBlock_spec:
  "(blocks (state st) blockId = None \<longrightarrow> removeBlock now blockId st = (False, st)) \<and>
   (blocks (state st) blockId \<noteq> None \<longrightarrow>
      fst (removeBlock now blockId st) = True \<and>
      blocks (state (snd (removeBlock now blockId st))) = (blocks (state st))(blockId := None) \<and>
      blockOrder (state (snd (removeBlock now blockId st)))
        = filter (\<lambda>i. i \<noteq> blockId) (blockOrder (state st)) \<and>
      blockId \<notin> set (blockOrder (state (snd (removeBlock now blockId st)))) \<and>
      blockId \<notin> set (selectedBlocks (state (snd (removeBlock now blockId st)))) \<and>
      set (selectedBlocks (state (snd (removeBlock now blockId st))))
        = set (selectedBlocks (state st)) - {blockId} \<and>
      focusedBlock (state (snd (removeBlock now blockId st)))
        = (if focusedBlock (state st) = Some blockId then None else focusedBlock (state st)))"
  by (auto simp: removeBlock_def Let_def state_notify saveToHistory_frame set_delete_def
           split: option.splits)

theorem removeBlock_spec_witness:
  "blocks (state demo) ''c'' = None \<and> removeBlock 3 ''c'' demo = (False, demo) \<and>
   blocks (state demo) ''a'' \<noteq> None \<and> fst (removeBlock 3 ''a'' demo) = True \<and>
   blockOrder (state (snd (removeBlock 3 ''a'' demo))) = [''b'']"
  using removeBlock_spec [of demo "''c''" 3] removeBlock_spec [of demo "''a''" 3]
  by (simp add: demo_blocks demo_order)

section \<open>moveBlock\<close>

text \<open>
  Claim C6. For an identity present in the ordering index and any integer position,
  in or out of range, \<^verbatim>\<open>moveBlock\<close> returns true and leaves the index with the same
  entries, each as many times as before: same length, same set of identities, and no
  duplicate unless there was one.
\<close>

theorem moveBlock_preserves_index:
  assumes "blockId \<in> set (blockOrder (state st))"
  shows "fst (moveBlock now blockId newPosition st) = True \<and>
         mset (blockOrder (state (snd (moveBlock now blockId newPosition st))))
           = mset (blockOrder (state st)) \<and>
         length (blockOrder (state (snd (moveBlock now blockId newPosition st))))
           = length (blockOrder (state st)) \<and>
         set (blockOrder (state (snd (moveBlock now blockId newPosition st))))
           = set (blockOrder (state st)) \<and>
         (distinct (blockOrder (state (snd (moveBlock now blockId newPosition st))))
           \<longleftrightarrow> distinct (blockOrder (state st)))"
proof -
  let ?st' = "snd (moveBlock now blockId newPosition st)"
  from assms have ne: "indexOf blockId (blockOrder (state st)) \<noteq> - 1"
    by (simp add: indexOf_neg_iff)
  then have r: "fst (moveBlock now blockId newPosition st) = True"
    by (simp add: moveBlock_def Let_def)
  from ne have "blockOrder (state ?st') =
      splice newPosition 0 [blockId]
        (splice (indexOf blockId (blockOrder (state st))) 1 [] (blockOrder (state st)))"
    by (simp add: moveBlock_def Let_def state_notify saveToHistory_frame)
  with mset_move [OF assms, of newPosition]
  have m: "mset (blockOrder (state ?st')) = mset (blockOrder (state st))"
    by simp
  from m have l: "length (blockOrder (state ?st')) = length (blockOrder (state st))"
    by (rule mset_eq_length)
  from m have s: "set (blockOrder (state ?st')) = set (blockOrder (state st))"
    by (rule mset_eq_setD)
  from m have d: "distinct (blockOrder (state ?st')) \<longleftrightarrow> distinct (blockOrder (state st))"
    by (rule mset_eq_imp_distinct_iff)
  from r m l s d show ?thesis by blast
qed

theorem moveBlock_preserves_index_witness:
  "''a'' \<in> set (blockOrder (state demo)) \<and>
   mset (blockOrder (state (snd (moveBlock 3 ''a'' 7 demo)))) = mset (blockOrder (state demo)) \<and>
   mset (blockOrder (state (snd (moveBlock 3 ''a'' (- 5) demo)))) = mset (blockOrder (state demo))"
proof -
  have h: "''a'' \<in> set (blockOrder (state demo))" by (simp add: demo_order)
  from moveBlock_preserves_index [OF h, of 3 7] moveBlock_preserves_index [OF h, of 3 "- 5"] h
  show ?thesis by blast
qed

section \<open>notify\<close>

lemma forEach_subscribers_world:
  "fst (forEach_subscribers cbs s ch (w, out)) = foldl (\<lambda>w cb. fst (cb w s ch)) w cbs"
  by (induction cbs arbitrary: w out) (auto split: prod.splits option.splits)

lemma notify_world:
  "world (notify now changes st)
     = foldl (\<lambda>w cb. fst (cb w ((state st)\<lparr>updatedAt := now\<rparr>) changes))
         (world st) (subscribers st) \<and>
   state (notify now changes st) = (state st)\<lparr>updatedAt := now\<rparr> \<and>
   subscribers (notify now changes st) = subscribers st"
  by (simp add: notify_def scheduleAutoSave_def Let_def forEach_subscribers_world)

section \<open>undo and redo\<close>

lemma undo_result:
  "undo now st = Inr (r, st') \<Longrightarrow>
     history (state st') = history (state st) \<and>
     historyIndex (state st') = (if r then historyIndex (state st) - 1 else historyIndex (state st))"
  by (auto simp: undo_def Let_def state_notify applyHistoryItem_history
           split: if_splits option.splits)

lemma redo_result:
  "redo now st = Inr (r, st') \<Longrightarrow>
     history (state st') = history (state st) \<and>
     historyIndex (state st') = (if r then historyIndex (state st) + 1 else historyIndex (state st))"
  by (auto simp: redo_def Let_def state_notify applyHistoryItem_history
           split: if_splits option.splits)

lemma undo_returns: "cursor_inv (state st) \<Longrightarrow> \<exists>r st'. undo now st = Inr (r, st')"
  by (auto simp: undo_def Let_def cursor_inv_def at_index_def)

lemma redo_returns: "cursor_inv (state st) \<Longrightarrow> \<exists>r st'. redo now st = Inr (r, st')"
  by (auto simp: redo_def Let_def cursor_inv_def at_index_def)

text \<open>
  Claim C9. \<^verbatim>\<open>undo\<close> and \<^verbatim>\<open>redo\<close> record nothing: whenever they return, the history
  stack holds the same entries as before the call, and the cursor has moved by one (down
  for undo, up for redo) when they return true and not at all when they return false.
  With the cursor in its range they do return.
\<close>

theorem undo_redo_keep_history:
  "(\<forall>r st'. undo now st = Inr (r, st') \<longrightarrow>
      history (state st') = history (state st) \<and>
      historyIndex (state st')
        = (if r then historyIndex (state st) - 1 else historyIndex (state st))) \<and>
   (\<forall>r st'. redo now st = Inr (r, st') \<longrightarrow>
      history (state st') = history (state st) \<and>
      historyIndex (state st')
        = (if r then historyIndex (state st) + 1 else historyIndex (state st))) \<and>
   (cursor_inv (state st) \<longrightarrow>
      (\<exists>r st'. undo now st = Inr (r, st')) \<and> (\<exists>r st'. redo now st = Inr (r, st')))"
  using undo_result [of now st] redo_result [of now st] undo_returns [of st now]
    redo_returns [of st now]
  by blast

theorem undo_redo_keep_history_witness:
  "cursor_inv (state demo) \<and>
   (\<exists>st'. undo 3 demo = Inr (True, st') \<and> history (state st') = history (state demo) \<and>
      historyIndex (state st') = 0 \<and>
      (\<exists>st''. redo 4 st' = Inr (True, st'') \<and> history (state st'') = history (state demo) \<and>
         historyIndex (state st'') = 1))"
proof -
  have c: "cursor_inv (state demo)" by (simp add: cursor_inv_def demo_cursor)
  have "\<exists>st'. undo 3 demo = Inr (True, st')"
    by (simp add: undo_def Let_def demo_cursor at_index_def)
  then obtain st' where u: "undo 3 demo = Inr (True, st')" ..
  from undo_redo_keep_history [of 3 demo] u
  have "history (state st') = history (state demo) \<and>
        historyIndex (state st')
          = (if True then historyIndex (state demo) - 1 else historyIndex (state demo))"
    by blast
  then have h: "history (state st') = history (state demo)"
    and i: "historyIndex (state st') = 0"
    by (simp_all add: demo_cursor)
  have "\<exists>st''. redo 4 st' = Inr (True, st'')"
    by (simp add: redo_def Let_def h i demo_cursor at_index_def)
  then obtain st'' where r: "redo 4 st' = Inr (True, st'')" ..
  from undo_redo_keep_history [of 4 st'] r
  have "history (state st'') = history (state st') \<and>
        historyIndex (state st'')
          = (if True then historyIndex (state st') + 1 else historyIndex (state st'))"
    by blast
  with h i have "history (state st'') = history (state demo)" "historyIndex (state st'') = 1"
    by simp_all
  with c u h i r show ?thesis by simp
qed

section \<open>The history stack\<close>

lemma slice0_take:
  "0 \<le> e \<Longrightarrow> e \<le> int (length xs) \<Longrightarrow> slice0 e xs = take (nat e) xs"
  by (simp add: slice0_def Let_def min_def)

lemma saveToHistory_history:
  assumes "cursor_inv s"
  shows "history (saveToHistory now d s)
           = (if int (length (take (nat (historyIndex s + 1)) (history s)
                        @ [\<lparr>h_data = d, h_timestamp = now\<rparr>])) > maxHistorySize s
              then tl (take (nat (historyIndex s + 1)) (history s)
                        @ [\<lparr>h_data = d, h_timestamp = now\<rparr>])
              else take (nat (historyIndex s + 1)) (history s)
                        @ [\<lparr>h_data = d, h_timestamp = now\<rparr>])"
    and "historyIndex (saveToHistory now d s)
           = (if int (length (take (nat (historyIndex s + 1)) (history s)
                        @ [\<lparr>h_data = d, h_timestamp = now\<rparr>])) > maxHistorySize s
              then historyIndex s else historyIndex s + 1)"
proof -
  from assms have "slice0 (historyIndex s + 1) (history s)
      = take (nat (historyIndex s + 1)) (history s)"
    by (intro slice0_take) (simp_all add: cursor_inv_def)
  then show "history (saveToHistory now d s)
           = (if int (length (take (nat (historyIndex s + 1)) (history s)
                        @ [\<lparr>h_data = d, h_timestamp = now\<rparr>])) > maxHistorySize s
              then tl (take (nat (historyIndex s + 1)) (history s)
                        @ [\<lparr>h_data = d, h_timestamp = now\<rparr>])
              else take (nat (historyIndex s + 1)) (history s)
                        @ [\<lparr>h_data = d, h_timestamp = now\<rparr>])"
    and "historyIndex (saveToHistory now d s)
           = (if int (length (take (nat (historyIndex s + 1)) (history s)
                        @ [\<lparr>h_data = d, h_timestamp = now\<rparr>])) > maxHistorySize s
              then historyIndex s else historyIndex s + 1)"
    by (simp_all add: saveToHistory_def Let_def)
qed

lemma saveToHistory_length:
  assumes "cursor_inv s"
  shows "int (length (history (saveToHistory now d s)))
           = (if historyIndex s + 2 > maxHistorySize s then historyIndex s + 1
              else historyIndex s + 2)"
  using assms unfolding saveToHistory_history(1) [OF assms]
  by (auto simp: cursor_inv_def min_def)

lemma saveToHistory_index:
  assumes "cursor_inv s"
  shows "historyIndex (saveToHistory now d s)
           = (if historyIndex s + 2 > maxHistorySize s then historyIndex s
              else historyIndex s + 1)"
  using assms unfolding saveToHistory_history(2) [OF assms]
  by (auto simp: cursor_inv_def min_def)

lemma saveToHistory_cursor_inv:
  assumes "cursor_inv s"
  shows "cursor_inv (saveToHistory now d s)"
  using assms
  by (simp add: cursor_inv_def [of "saveToHistory now d s"] saveToHistory_length
        saveToHistory_index) (simp add: cursor_inv_def)

lemma saveToHistory_hist_inv:
  assumes "hist_inv s"
  shows "hist_inv (saveToHistory now d s)"
proof -
  from assms have c: "cursor_inv s" and b: "int (length (history s)) \<le> maxHistorySize s"
    by (simp_all add: hist_inv_def)
  from c b have "int (length (history (saveToHistory now d s))) \<le> maxHistorySize s"
    by (simp add: saveToHistory_length cursor_inv_def)
  with saveToHistory_cursor_inv [OF c] show ?thesis
    by (simp add: hist_inv_def saveToHistory_frame)
qed

lemma hist_inv_upd [simp]:
  "hist_inv (s\<lparr>updatedAt := n\<rparr>) = hist_inv s"
  "hist_inv (s\<lparr>blocks := b\<rparr>) = hist_inv s"
  "hist_inv (s\<lparr>blockOrder := bo\<rparr>) = hist_inv s"
  "hist_inv (s\<lparr>selectedBlocks := sb\<rparr>) = hist_inv s"
  "hist_inv (s\<lparr>focusedBlock := fb\<rparr>) = hist_inv s"
  "hist_inv (s\<lparr>documentId := di\<rparr>) = hist_inv s"
  "hist_inv (s\<lparr>title := t\<rparr>) = hist_inv s"
  "hist_inv (s\<lparr>version := v\<rparr>) = hist_inv s"
  "hist_inv (s\<lparr>createdAt := n\<rparr>) = hist_inv s"
  "hist_inv (s\<lparr>metadata := m\<rparr>) = hist_inv s"
  by (simp_all add: hist_inv_def cursor_inv_def)

lemma hist_inv_applyHistoryItem [simp]:
  "hist_inv (applyHistoryItem item r s) = hist_inv s"
  by (simp add: hist_inv_def cursor_inv_def applyHistoryItem_history)

lemma addBlock_hist_inv:
  "hist_inv (state st) \<Longrightarrow> hist_inv (state (snd (addBlock now rnd blockData position st)))"
  by (auto simp: addBlock_def Let_def state_notify split: option.splits
           intro!: saveToHistory_hist_inv)

lemma removeBlock_hist_inv:
  "hist_inv (state st) \<Longrightarrow> hist_inv (state (snd (removeBlock now blockId st)))"
  by (auto simp: removeBlock_def Let_def state_notify split: option.splits
           intro!: saveToHistory_hist_inv)

lemma updateBlock_hist_inv:
  "hist_inv (state st) \<Longrightarrow> hist_inv (state (snd (updateBlock now blockId updates st)))"
  by (auto simp: updateBlock_def Let_def state_notify split: option.splits
           intro!: saveToHistory_hist_inv)

lemma moveBlock_hist_inv:
  "hist_inv (state st) \<Longrightarrow> hist_inv (state (snd (moveBlock now blockId newPosition st)))"
  by (auto simp: moveBlock_def Let_def state_notify split: option.splits
           intro!: saveToHistory_hist_inv)

lemma perform_hist_inv:
  "hist_inv (state st) \<Longrightarrow> hist_inv (state (snd (perform now rnd m st)))"
  by (cases m)
     (simp_all add: perform_def addBlock_hist_inv removeBlock_hist_inv updateBlock_hist_inv
        moveBlock_hist_inv)

lemma addBlocks_hist_inv:
  "hist_inv (state st) \<Longrightarrow> hist_inv (state (addBlocks env i bs st))"
  by (induction bs arbitrary: i st) (simp_all add: addBlock_hist_inv)

lemma deserialize_hist_inv:
  "hist_inv (state st) \<Longrightarrow> hist_inv (state (deserialize now rnd env data st))"
  by (auto simp: deserialize_def Let_def state_notify split: option.splits
           intro!: addBlocks_hist_inv)

lemma undo_hist_inv:
  assumes "hist_inv (state st)" and "undo now st = Inr (r, st')"
  shows "hist_inv (state st')"
  using assms
  by (auto simp: undo_def Let_def state_notify split: if_splits option.splits)
     (auto simp: hist_inv_def cursor_inv_def applyHistoryItem_history)

lemma redo_hist_inv:
  assumes "hist_inv (state st)" and "redo now st = Inr (r, st')"
  shows "hist_inv (state st')"
  using assms
  by (auto simp: redo_def Let_def state_notify split: if_splits option.splits)
     (auto simp: hist_inv_def cursor_inv_def applyHistoryItem_history)

lemma hist_inv_cursor: "hist_inv s \<Longrightarrow> cursor_inv s"
  by (simp add: hist_inv_def)

lemma exec_hist_inv:
  assumes "hist_inv (state st)"
  shows "\<exists>st'. exec c st = Inr st' \<and> hist_inv (state st')"
proof (cases "c_op c")
  case Undo
  from undo_returns [OF hist_inv_cursor [OF assms], of "c_now c"]
  obtain r st' where u: "undo (c_now c) st = Inr (r, st')" by blast
  with undo_hist_inv [OF assms u] Undo show ?thesis by (simp add: exec_def)
next
  case Redo
  from redo_returns [OF hist_inv_cursor [OF assms], of "c_now c"]
  obtain r st' where u: "redo (c_now c) st = Inr (r, st')" by blast
  with redo_hist_inv [OF assms u] Redo show ?thesis by (simp add: exec_def)
next
  case (SaveToHistory d)
  with saveToHistory_hist_inv [OF assms] show ?thesis by (simp add: exec_def)
next
  case Clear
  with assms show ?thesis
    by (simp add: exec_def clear_def state_notify) (simp add: hist_inv_def cursor_inv_def)
qed (use assms in \<open>simp_all add: exec_def perform_hist_inv deserialize_hist_inv
       selectBlock_def deselectBlock_def clearSelection_def focusBlock_def updateMetadata_def
       setTitle_def state_notify Let_def\<close>)

lemma run_hist_inv:
  "hist_inv (state st) \<Longrightarrow> \<exists>st'. run cs st = Inr st' \<and> hist_inv (state st')"
proof (induction cs arbitrary: st)
  case Nil
  then show ?case by simp
next
  case (Cons c cs)
  from exec_hist_inv [OF Cons.prems, of c]
  obtain st1 where e: "exec c st = Inr st1" and h: "hist_inv (state st1)" by blast
  from Cons.IH [OF h] e show ?case by simp
qed

lemma constructor_hist_inv: "hist_inv (state ((constructor now rnd w)\<lparr>subscribers := subs\<rparr>))"
  by (simp add: constructor_def hist_inv_def cursor_inv_def)

lemma undo_false: "historyIndex (state st) < 0 \<Longrightarrow> undo now st = Inr (False, st)"
  by (simp add: undo_def Let_def)

lemma redo_false:
  "historyIndex (state st) \<ge> int (length (history (state st))) - 1
     \<Longrightarrow> redo now st = Inr (False, st)"
  by (simp add: redo_def Let_def)

lemma undo_true:
  "cursor_inv (state st) \<Longrightarrow> 0 \<le> historyIndex (state st)
     \<Longrightarrow> \<exists>st'. undo now st = Inr (True, st')"
  by (auto simp: undo_def Let_def cursor_inv_def at_index_def)

lemma undo_times_count:
  "cursor_inv (state st) \<Longrightarrow>
     \<exists>st'. undo_times nows st
             = Inr (min (length nows) (nat (historyIndex (state st) + 1)), st') \<and>
           history (state st') = history (state st) \<and>
           historyIndex (state st')
             = historyIndex (state st)
                 - int (min (length nows) (nat (historyIndex (state st) + 1)))"
proof (induction nows arbitrary: st)
  case Nil
  then show ?case by simp
next
  case (Cons now nows)
  show ?case
  proof (cases "0 \<le> historyIndex (state st)")
    case False
    then have "undo now st = Inr (False, st)" by (simp add: undo_false)
    with False show ?thesis by simp
  next
    case True
    from undo_true [OF Cons.prems True, of now]
    obtain st1 where u: "undo now st = Inr (True, st1)" by blast
    from undo_result [OF u]
    have h1: "history (state st1) = history (state st)"
      and i1: "historyIndex (state st1) = historyIndex (state st) - 1" by simp_all
    from Cons.prems h1 i1 True have c1: "cursor_inv (state st1)"
      by (simp add: cursor_inv_def)
    from Cons.IH [OF c1] obtain st2 where
      t: "undo_times nows st1
            = Inr (min (length nows) (nat (historyIndex (state st1) + 1)), st2)"
      and h2: "history (state st2) = history (state st1)"
      and i2: "historyIndex (state st2)
                 = historyIndex (state st1)
                     - int (min (length nows) (nat (historyIndex (state st1) + 1)))"
      by blast
    from True have m: "min (length (now # nows)) (nat (historyIndex (state st) + 1))
        = Suc (min (length nows) (nat (historyIndex (state st1) + 1)))"
      unfolding i1 by (simp add: min_def nat_add_distrib)
    show ?thesis
      unfolding m using u t h1 h2 i1 i2 by simp
  qed
qed

text \<open>
  Claim C4. From a state whose cursor is in range and whose history is within the bound,
  recording an entry leaves the history within the bound. When the entries kept up to
  the cursor plus the new one would exceed the bound, the oldest entry is dropped and the
  cursor stays; otherwise the cursor advances by one. After such an eviction exactly as
  many \<^verbatim>\<open>undo()\<close> calls succeed as the bound allows, over the entries that remain,
  and the next one returns false: the evicted entry is out of reach.
\<close>

theorem saveToHistory_bounded:
  assumes "hist_inv (state st)"
  shows "let s = state st;
             e = \<lparr>h_data = d, h_timestamp = now\<rparr>;
             kept = take (nat (historyIndex s + 1)) (history s);
             s' = saveToHistory now d s
         in int (length (history s')) \<le> maxHistorySize s' \<and>
            maxHistorySize s' = maxHistorySize s \<and>
            (int (length (kept @ [e])) > maxHistorySize s \<longrightarrow>
               history s' = tl (history s @ [e]) \<and>
               historyIndex s' = historyIndex s \<and>
               (\<forall>nows. nat (maxHistorySize s) \<le> length nows \<longrightarrow>
                  (\<exists>st''. undo_times nows (st\<lparr>state := s'\<rparr>)
                            = Inr (nat (maxHistorySize s), st'') \<and>
                          history (state st'') = tl (history s @ [e]) \<and>
                          undo now' st'' = Inr (False, st'')))) \<and>
            (\<not> int (length (kept @ [e])) > maxHistorySize s \<longrightarrow>
               history s' = kept @ [e] \<and> historyIndex s' = historyIndex s + 1)"
proof -
  let ?s = "state st"
  let ?e = "\<lparr>h_data = d, h_timestamp = now\<rparr>"
  let ?kept = "take (nat (historyIndex ?s + 1)) (history ?s)"
  let ?s' = "saveToHistory now d ?s"
  from assms have c: "cursor_inv ?s" and b: "int (length (history ?s)) \<le> maxHistorySize ?s"
    by (simp_all add: hist_inv_def)
  from saveToHistory_hist_inv [OF assms, of now d]
  have c': "cursor_inv ?s'" and b': "int (length (history ?s')) \<le> maxHistorySize ?s'"
    by (simp_all add: hist_inv_def)
  have mx: "maxHistorySize ?s' = maxHistorySize ?s" by (simp add: saveToHistory_frame)
  have keep: "\<not> int (length (?kept @ [?e])) > maxHistorySize ?s \<longrightarrow>
      history ?s' = ?kept @ [?e] \<and> historyIndex ?s' = historyIndex ?s + 1"
    by (simp add: saveToHistory_history [OF c])
  have evict: "history ?s' = tl (history ?s @ [?e]) \<and> historyIndex ?s' = historyIndex ?s \<and>
       (\<forall>nows. nat (maxHistorySize ?s) \<le> length nows \<longrightarrow>
          (\<exists>st''. undo_times nows (st\<lparr>state := ?s'\<rparr>) = Inr (nat (maxHistorySize ?s), st'') \<and>
                  history (state st'') = tl (history ?s @ [?e]) \<and>
                  undo now' st'' = Inr (False, st'')))"
    if ex: "int (length (?kept @ [?e])) > maxHistorySize ?s"
  proof -
    from ex c b have i: "historyIndex ?s = int (length (history ?s)) - 1"
      and l: "int (length (history ?s)) = maxHistorySize ?s"
      by (auto simp: cursor_inv_def min_def split: if_splits)
    from i have k: "?kept = history ?s" by simp
    from ex have h: "history ?s' = tl (history ?s @ [?e])"
      unfolding saveToHistory_history(1) [OF c] k by simp
    from ex have x: "historyIndex ?s' = historyIndex ?s"
      unfolding saveToHistory_history(2) [OF c] by simp
    have "\<exists>st''. undo_times nows (st\<lparr>state := ?s'\<rparr>) = Inr (nat (maxHistorySize ?s), st'') \<and>
                 history (state st'') = tl (history ?s @ [?e]) \<and>
                 undo now' st'' = Inr (False, st'')"
      if n: "nat (maxHistorySize ?s) \<le> length nows" for nows
    proof -
      have "cursor_inv (state (st\<lparr>state := ?s'\<rparr>))" using c' by simp
      from undo_times_count [OF this, of nows] obtain st'' where
        t: "undo_times nows (st\<lparr>state := ?s'\<rparr>)
              = Inr (min (length nows) (nat (historyIndex ?s' + 1)), st'')"
        and h2: "history (state st'') = history ?s'"
        and i2: "historyIndex (state st'')
                   = historyIndex ?s' - int (min (length nows) (nat (historyIndex ?s' + 1)))"
        by auto
      from n x i l have m: "min (length nows) (nat (historyIndex ?s' + 1))
          = nat (maxHistorySize ?s)" by simp
      from i2 m x i l have "historyIndex (state st'') < 0" by simp
      then have "undo now' st'' = Inr (False, st'')" by (rule undo_false)
      with t h2 h m show ?thesis by simp
    qed
    with h x show ?thesis by blast
  qed
  from b' mx keep evict show ?thesis unfolding Let_def by blast
qed

text \<open>
  Claim C10. After any sequence of public operations on a constructed store (with any
  subscribers) no call has thrown and the cursor lies between -1 and the index of the
  last history entry. \<^verbatim>\<open>undo\<close> changes nothing when the cursor is below 0,
  \<^verbatim>\<open>redo\<close> changes nothing when the cursor is on the last entry, and \<^verbatim>\<open>clear\<close>
  leaves an empty history with the cursor at -1.
\<close>

theorem history_cursor_in_range:
  "(\<exists>st'. run cs ((constructor now0 rnd w)\<lparr>subscribers := subs\<rparr>) = Inr st' \<and>
          - 1 \<le> historyIndex (state st') \<and>
          historyIndex (state st') \<le> int (length (history (state st'))) - 1) \<and>
   (historyIndex (state st) < 0 \<longrightarrow> undo now st = Inr (False, st)) \<and>
   (historyIndex (state st) \<ge> int (length (history (state st))) - 1
      \<longrightarrow> redo now st = Inr (False, st)) \<and>
   history (state (clear now st)) = [] \<and> historyIndex (state (clear now st)) = - 1"
proof -
  from run_hist_inv [OF constructor_hist_inv [of subs now0 rnd w], of cs]
  obtain st' where "run cs ((constructor now0 rnd w)\<lparr>subscribers := subs\<rparr>) = Inr st'"
    and "hist_inv (state st')" by blast
  then have "\<exists>st'. run cs ((constructor now0 rnd w)\<lparr>subscribers := subs\<rparr>) = Inr st' \<and>
          - 1 \<le> historyIndex (state st') \<and>
          historyIndex (state st') \<le> int (length (history (state st'))) - 1"
    by (auto simp: hist_inv_def cursor_inv_def)
  moreover have "history (state (clear now st)) = []"
    "historyIndex (state (clear now st)) = - 1"
    by (simp_all add: clear_def state_notify)
  ultimately show ?thesis using undo_false [of st now] redo_false [of st now] by blast
qed

lemma demo_max: "maxHistorySize (state demo) = 50"
  by (simp add: demo_def eval_defs)

lemma demo_hist_inv: "hist_inv (state demo)"
  by (simp add: hist_inv_def cursor_inv_def demo_cursor demo_max)

lemma full_hist_inv: "hist_inv (state full)"
  by (simp add: full_def hist_inv_def cursor_inv_def demo_max)

lemma full_facts:
  "maxHistorySize (state full) = 50" "historyIndex (state full) = 49"
  "length (history (state full)) = 50"
  by (simp_all add: full_def demo_max)

theorem saveToHistory_bounded_witness:
  "hist_inv (state demo) \<and>
   historyIndex (saveToHistory 3 (OtherAction ''y'') (state demo)) = 2 \<and>
   length (history (saveToHistory 3 (OtherAction ''y'') (state demo))) = 3 \<and>
   hist_inv (state full) \<and>
   historyIndex (saveToHistory 3 (OtherAction ''y'') (state full)) = 49 \<and>
   length (history (saveToHistory 3 (OtherAction ''y'') (state full))) = 50 \<and>
   (\<exists>st''. undo_times (replicate 60 4)
             (full\<lparr>state := saveToHistory 3 (OtherAction ''y'') (state full)\<rparr>) = Inr (50, st'') \<and>
           undo 5 st'' = Inr (False, st''))"
proof -
  let ?e = "\<lparr>h_data = OtherAction ''y'', h_timestamp = 3\<rparr>"
  let ?d = "saveToHistory 3 (OtherAction ''y'') (state demo)"
  let ?f = "saveToHistory 3 (OtherAction ''y'') (state full)"
  have kd: "\<not> int (length (take (nat (historyIndex (state demo) + 1)) (history (state demo))
              @ [?e])) > maxHistorySize (state demo)"
    by (simp add: demo_cursor demo_max)
  from saveToHistory_bounded [OF demo_hist_inv, of "OtherAction ''y''" 3 5] kd
  have "history ?d = take (nat (historyIndex (state demo) + 1)) (history (state demo)) @ [?e]
        \<and> historyIndex ?d = historyIndex (state demo) + 1"
    unfolding Let_def by blast
  then have a: "historyIndex ?d = 2 \<and> length (history ?d) = 3"
    by (simp add: demo_cursor)
  have kf: "int (length (take (nat (historyIndex (state full) + 1)) (history (state full))
              @ [?e])) > maxHistorySize (state full)"
    by (simp add: full_facts)
  from saveToHistory_bounded [OF full_hist_inv, of "OtherAction ''y''" 3 5] kf
  have b: "history ?f = tl (history (state full) @ [?e]) \<and>
           historyIndex ?f = historyIndex (state full) \<and>
           (\<forall>nows. nat (maxHistorySize (state full)) \<le> length nows \<longrightarrow>
              (\<exists>st''. undo_times nows (full\<lparr>state := ?f\<rparr>)
                        = Inr (nat (maxHistorySize (state full)), st'') \<and>
                      history (state st'') = tl (history (state full) @ [?e]) \<and>
                      undo 5 st'' = Inr (False, st'')))"
    unfolding Let_def by blast
  then have b1: "historyIndex ?f = 49 \<and> length (history ?f) = 50"
    by (simp add: full_facts)
  have "nat (maxHistorySize (state full)) \<le> length (replicate 60 (4::nat))"
    by (simp add: full_facts)
  with b have "\<exists>st''. undo_times (replicate 60 4) (full\<lparr>state := ?f\<rparr>)
                        = Inr (nat (maxHistorySize (state full)), st'') \<and>
                      history (state st'') = tl (history (state full) @ [?e]) \<and>
                      undo 5 st'' = Inr (False, st'')"
    by blast
  then have b2: "\<exists>st''. undo_times (replicate 60 4) (full\<lparr>state := ?f\<rparr>) = Inr (50, st'') \<and>
                      undo 5 st'' = Inr (False, st'')"
    by (auto simp: full_facts)
  from a b1 b2 demo_hist_inv full_hist_inv show ?thesis by blast
qed

lemma fresh_cursor: "historyIndex (state fresh) = - 1"
  by (simp add: fresh_def constructor_def)

theorem history_cursor_in_range_witness:
  "historyIndex (state fresh) < 0 \<and> undo 5 fresh = Inr (False, fresh) \<and>
   historyIndex (state demo) \<ge> int (length (history (state demo))) - 1 \<and>
   redo 5 demo = Inr (False, demo) \<and>
   (\<exists>st'. run [\<lparr>c_op = Mutate (AddBlockOp (block_with ''a'' ''A'') None), c_now = 1,
                 c_rnd = ''r1'', c_env = (\<lambda>i. (i, ''r''))\<rparr>,
               \<lparr>c_op = Undo, c_now = 2, c_rnd = ''r2'', c_env = (\<lambda>i. (i, ''r''))\<rparr>]
             ((constructor 0 ''r0'' ())\<lparr>subscribers := []\<rparr>) = Inr st' \<and>
          - 1 \<le> historyIndex (state st') \<and>
          historyIndex (state st') \<le> int (length (history (state st'))) - 1)"
proof -
  have f: "historyIndex (state fresh) < 0" by (simp add: fresh_cursor)
  have d: "historyIndex (state demo) \<ge> int (length (history (state demo))) - 1"
    by (simp add: demo_cursor)
  from history_cursor_in_range [where st = fresh and now = 5 and w = "()" and subs = "[]"] f
    history_cursor_in_range [where st = demo and now = 5 and w = "()" and subs = "[]"] d
  show ?thesis by blast
qed

section \<open>The ordering index and the block store\<close>

lemma distinct_splice_insert:
  "distinct (splice p 0 [x] xs) \<longleftrightarrow> x \<notin> set xs \<and> distinct xs"
proof -
  have "mset (splice p 0 [x] xs) = mset (x # xs)" by (simp add: mset_splice_insert)
  then have "distinct (splice p 0 [x] xs) \<longleftrightarrow> distinct (x # xs)"
    by (rule mset_eq_imp_distinct_iff)
  then show ?thesis by simp
qed

lemma set_splice_insert: "set (splice p 0 [x] xs) = insert x (set xs)"
proof -
  have "mset (splice p 0 [x] xs) = mset (x # xs)" by (simp add: mset_splice_insert)
  then have "set (splice p 0 [x] xs) = set (x # xs)" by (rule mset_eq_setD)
  then show ?thesis by simp
qed

lemma addBlock_id:
  "fst (addBlock now rnd blockData position st)
     = or_else (d_id blockData) (generateBlockId now rnd)"
  by (simp add: addBlock_def Let_def)

lemma addBlock_dom:
  "dom (blocks (state (snd (addBlock now rnd blockData position st))))
     = insert (or_else (d_id blockData) (generateBlockId now rnd)) (dom (blocks (state st)))"
  by (auto simp: addBlock_def Let_def state_notify saveToHistory_frame split: option.splits)

lemma addBlock_order:
  "blockOrder (state (snd (addBlock now rnd blockData position st)))
     = (case position of
          None \<Rightarrow> blockOrder (state st) @ [or_else (d_id blockData) (generateBlockId now rnd)]
        | Some p \<Rightarrow>
            if p \<ge> 0 \<and> p \<le> int (length (blockOrder (state st)))
            then splice p 0 [or_else (d_id blockData) (generateBlockId now rnd)]
                   (blockOrder (state st))
            else blockOrder (state st) @ [or_else (d_id blockData) (generateBlockId now rnd)])"
  by (auto simp: addBlock_def Let_def state_notify saveToHistory_frame split: option.splits)

lemma addBlock_store_inv:
  assumes "store_inv (state st)"
    and "or_else (d_id blockData) (generateBlockId now rnd) \<notin> dom (blocks (state st))"
  shows "store_inv (state (snd (addBlock now rnd blockData position st)))"
  using assms unfolding store_inv_def addBlock_dom addBlock_order
  by (auto simp: distinct_splice_insert set_splice_insert split: option.splits)

lemma removeBlock_store_inv:
  assumes "store_inv (state st)"
  shows "store_inv (state (snd (removeBlock now blockId st)))"
  using assms
  by (auto simp: store_inv_def removeBlock_def Let_def state_notify saveToHistory_frame
           split: option.splits)

lemma updateBlock_store_inv:
  assumes "store_inv (state st)"
  shows "store_inv (state (snd (updateBlock now blockId updates st)))"
  using assms
  by (auto simp: store_inv_def updateBlock_def Let_def state_notify saveToHistory_frame
           split: option.splits)

lemma moveBlock_blocks:
  "blocks (state (snd (moveBlock now blockId newPosition st))) = blocks (state st)"
  by (simp add: moveBlock_def Let_def state_notify saveToHistory_frame)

lemma moveBlock_order:
  "blockOrder (state (snd (moveBlock now blockId newPosition st)))
     = (if blockId \<in> set (blockOrder (state st))
        then splice newPosition 0 [blockId]
               (splice (indexOf blockId (blockOrder (state st))) 1 [] (blockOrder (state st)))
        else blockOrder (state st))"
  by (simp add: moveBlock_def Let_def state_notify saveToHistory_frame indexOf_neg_iff)

lemma moveBlock_store_inv:
  assumes "store_inv (state st)"
  shows "store_inv (state (snd (moveBlock now blockId newPosition st)))"
proof (cases "blockId \<in> set (blockOrder (state st))")
  case False
  with assms show ?thesis by (simp add: store_inv_def moveBlock_blocks moveBlock_order)
next
  case True
  from mset_move [OF True, of newPosition] True
  have m: "mset (blockOrder (state (snd (moveBlock now blockId newPosition st))))
             = mset (blockOrder (state st))"
    by (simp add: moveBlock_order)
  from mset_eq_setD [OF m] mset_eq_imp_distinct_iff [OF m] assms show ?thesis
    by (simp add: store_inv_def moveBlock_blocks)
qed

lemma perform_store_inv:
  assumes "store_inv (state st)" and "fresh_add now rnd m (state st)"
  shows "store_inv (state (snd (perform now rnd m st)))"
  using assms
  by (cases m)
     (simp_all add: perform_def fresh_add_def addBlock_store_inv removeBlock_store_inv
        updateBlock_store_inv moveBlock_store_inv)

lemma states_after_store_inv:
  "store_inv (state st) \<Longrightarrow> fresh_adds ms st
     \<Longrightarrow> \<forall>st' \<in> set (states_after ms st). store_inv (state st')"
proof (induction ms arbitrary: st)
  case Nil
  then show ?case by simp
next
  case (Cons a ms)
  obtain m now rnd where a: "a = (m, now, rnd)" by (cases a)
  from Cons.prems have f: "fresh_add now rnd m (state st)"
    and r: "fresh_adds ms (snd (perform now rnd m st))" by (simp_all add: a)
  from perform_store_inv [OF Cons.prems(1) f]
  have i: "store_inv (state (snd (perform now rnd m st)))" .
  from Cons.IH [OF i r] i show ?case by (simp add: a)
qed

lemma store_inv_size:
  assumes "store_inv s"
  shows "distinct (blockOrder s) \<and> length (blockOrder s) = card (dom (blocks s))"
proof -
  from assms have d: "distinct (blockOrder s)" and e: "set (blockOrder s) = dom (blocks s)"
    by (simp_all add: store_inv_def)
  from d have "card (set (blockOrder s)) = length (blockOrder s)" by (rule distinct_card)
  with d e show ?thesis by simp
qed

lemma constructor_store_inv:
  "store_inv (state ((constructor now rnd w)\<lparr>subscribers := subs\<rparr>))"
  by (simp add: constructor_def store_inv_def)

text \<open>
  Claim C1, amended. Along every sequence of mutations on a constructed store in which
  each \<^verbatim>\<open>addBlock\<close> uses an identity (supplied by the caller or generated) that is not
  already a key of the block store, after every operation the ordering index has no
  duplicate and its length is the number of entries of the block store.
\<close>

theorem index_matches_store:
  assumes "fresh_adds ms ((constructor now0 rnd0 w)\<lparr>subscribers := subs\<rparr>)"
  shows "\<forall>st \<in> set (states_after ms ((constructor now0 rnd0 w)\<lparr>subscribers := subs\<rparr>)).
           distinct (blockOrder (state st)) \<and>
           length (blockOrder (state st)) = card (dom (blocks (state st)))"
  using states_after_store_inv [OF constructor_store_inv assms] store_inv_size by blast

text \<open>
  \<^verbatim>\<open>addBlock\<close> does not look the identity up: adding a second block under an identity
  that is in use replaces the stored block and appends the identity to the index again.
\<close>

theorem index_matches_store_counterexample:
  "blockOrder (state twice) = [''a'', ''a''] \<and>
   \<not> distinct (blockOrder (state twice)) \<and>
   length (blockOrder (state twice)) = 2 \<and> card (dom (blocks (state twice))) = 1"
  by (simp add: twice_def fresh_def eval_defs)

theorem index_matches_store_witness:
  "fresh_adds
     [(AddBlockOp (block_with ''a'' ''A'') None, 1, ''r1''),
      (AddBlockOp (block_with ''b'' ''B'') (Some 0), 2, ''r2''),
      (MoveBlockOp ''a'' 5, 3, ''r3''),
      (RemoveBlockOp ''b'', 4, ''r4'')]
     ((constructor 0 ''r0'' ())\<lparr>subscribers := []\<rparr>) \<and>
   list_all
     (\<lambda>st. distinct (blockOrder (state st)) \<and>
           length (blockOrder (state st)) = card (dom (blocks (state st))))
     (states_after
        [(AddBlockOp (block_with ''a'' ''A'') None, 1, ''r1''),
         (AddBlockOp (block_with ''b'' ''B'') (Some 0), 2, ''r2''),
         (MoveBlockOp ''a'' 5, 3, ''r3''),
         (RemoveBlockOp ''b'', 4, ''r4'')]
        ((constructor 0 ''r0'' ())\<lparr>subscribers := []\<rparr>))"
proof -
  have h: "fresh_adds
     [(AddBlockOp (block_with ''a'' ''A'') None, 1, ''r1''),
      (AddBlockOp (block_with ''b'' ''B'') (Some 0), 2, ''r2''),
      (MoveBlockOp ''a'' 5, 3, ''r3''),
      (RemoveBlockOp ''b'', 4, ''r4'')]
     ((constructor 0 ''r0'' ())\<lparr>subscribers := []\<rparr>)"
    by (simp add: fresh_add_def perform_def addBlock_dom)
       (simp add: constructor_def or_else_def block_with_def)
  from index_matches_store [OF h] h show ?thesis unfolding list_all_iff by blast
qed

section \<open>Undo and redo of a mutation\<close>

lemma saveToHistory_top:
  assumes "cursor_inv s" and "0 < maxHistorySize s"
  shows "0 \<le> historyIndex (saveToHistory now d s)"
    and "historyIndex (saveToHistory now d s)
           = int (length (history (saveToHistory now d s))) - 1"
    and "at_index (history (saveToHistory now d s)) (historyIndex (saveToHistory now d s))
           = Some \<lparr>h_data = d, h_timestamp = now\<rparr>"
proof -
  let ?s' = "saveToHistory now d s"
  let ?e = "\<lparr>h_data = d, h_timestamp = now\<rparr>"
  let ?kept = "take (nat (historyIndex s + 1)) (history s)"
  from assms show nonneg: "0 \<le> historyIndex ?s'"
    by (auto simp: saveToHistory_index cursor_inv_def)
  from assms show top: "historyIndex ?s' = int (length (history ?s')) - 1"
    by (simp add: saveToHistory_index saveToHistory_length)
  from nonneg top have ne: "history ?s' \<noteq> []" by auto
  have "last (history ?s') = ?e"
  proof (cases "int (length (?kept @ [?e])) > maxHistorySize s")
    case True
    then have h: "history ?s' = tl (?kept @ [?e])"
      by (simp add: saveToHistory_history(1) [OF assms(1)])
    with ne have "last (tl (?kept @ [?e])) = last (?kept @ [?e])"
      by (intro last_tl) simp
    with h show ?thesis by simp
  next
    case False
    then have "history ?s' = ?kept @ [?e]"
      by (simp add: saveToHistory_history(1) [OF assms(1)])
    then show ?thesis by simp
  qed
  with ne have "history ?s' ! (length (history ?s') - 1) = ?e"
    by (simp add: last_conv_nth)
  moreover from top nonneg have "nat (historyIndex ?s') = length (history ?s') - 1" by simp
  ultimately show "at_index (history ?s') (historyIndex ?s') = Some ?e"
    using nonneg top by (simp add: at_index_def)
qed

lemma undo_state:
  assumes "0 \<le> historyIndex (state st)"
    and "at_index (history (state st)) (historyIndex (state st)) = Some item"
  shows "undo now st = Inr (True, notify now (UndoChange item)
           (st\<lparr>state := (applyHistoryItem item True (state st))
                            \<lparr>historyIndex := historyIndex (state st) - 1\<rparr>\<rparr>))"
  using assms by (simp add: undo_def Let_def applyHistoryItem_history)

lemma redo_state:
  assumes "historyIndex (state st) < int (length (history (state st))) - 1"
    and "at_index (history (state st)) (historyIndex (state st) + 1) = Some item"
  shows "redo now st = Inr (True, notify now (RedoChange item)
           (st\<lparr>state := applyHistoryItem item False
                            ((state st)\<lparr>historyIndex := historyIndex (state st) + 1\<rparr>)\<rparr>))"
  using assms by (simp add: redo_def Let_def)

lemma record_then_undo:
  assumes "cursor_inv s2" and "0 < maxHistorySize s2"
    and "state st1 = (saveToHistory now d s2)\<lparr>updatedAt := now\<rparr>"
  shows "\<exists>st'. undo now' st1 = Inr (True, st') \<and>
           state st' = (applyHistoryItem \<lparr>h_data = d, h_timestamp = now\<rparr> True (state st1))
                         \<lparr>historyIndex := historyIndex (state st1) - 1, updatedAt := now'\<rparr>"
proof -
  from saveToHistory_top [OF assms(1,2), of now d] assms(3)
  have "0 \<le> historyIndex (state st1)"
    and "at_index (history (state st1)) (historyIndex (state st1))
           = Some \<lparr>h_data = d, h_timestamp = now\<rparr>"
    by simp_all
  from undo_state [OF this, of now'] show ?thesis by (simp add: state_notify)
qed

lemma record_undo_redo:
  assumes "cursor_inv s2" and "0 < maxHistorySize s2"
    and "state st1 = (saveToHistory now d s2)\<lparr>updatedAt := now\<rparr>"
    and "state st' = (applyHistoryItem \<lparr>h_data = d, h_timestamp = now\<rparr> True (state st1))
                         \<lparr>historyIndex := historyIndex (state st1) - 1, updatedAt := now'\<rparr>"
  shows "\<exists>st''. redo now'' st' = Inr (True, st'') \<and>
           state st'' = (applyHistoryItem \<lparr>h_data = d, h_timestamp = now\<rparr> False
                           ((state st')\<lparr>historyIndex := historyIndex (state st1)\<rparr>))
                          \<lparr>updatedAt := now''\<rparr>"
proof -
  from saveToHistory_top [OF assms(1,2), of now d] assms(3)
  have a: "0 \<le> historyIndex (state st1)"
    and b: "historyIndex (state st1) = int (length (history (state st1))) - 1"
    and c: "at_index (history (state st1)) (historyIndex (state st1))
           = Some \<lparr>h_data = d, h_timestamp = now\<rparr>"
    by simp_all
  have h: "history (state st') = history (state st1)"
    and i: "historyIndex (state st') = historyIndex (state st1) - 1"
    by (simp_all add: assms(4) applyHistoryItem_history)
  from b h i have 1: "historyIndex (state st') < int (length (history (state st'))) - 1"
    by simp
  from c h i have 2: "at_index (history (state st')) (historyIndex (state st') + 1)
      = Some \<lparr>h_data = d, h_timestamp = now\<rparr>" by simp
  from redo_state [OF 1 2, of now''] i show ?thesis by (simp add: state_notify)
qed

lemma saveToHistory_frame2:
  "documentId (saveToHistory now d s) = documentId s"
  "title (saveToHistory now d s) = title s"
  "version (saveToHistory now d s) = version s"
  "createdAt (saveToHistory now d s) = createdAt s"
  "updatedAt (saveToHistory now d s) = updatedAt s"
  "editMode (saveToHistory now d s) = editMode s"
  "readOnly (saveToHistory now d s) = readOnly s"
  "doc_state.more (saveToHistory now d s) = doc_state.more s"
  by (simp_all add: saveToHistory_def Let_def)

lemma applyHistoryItem_frame:
  "documentId (applyHistoryItem item r s) = documentId s"
  "title (applyHistoryItem item r s) = title s"
  "version (applyHistoryItem item r s) = version s"
  "createdAt (applyHistoryItem item r s) = createdAt s"
  "updatedAt (applyHistoryItem item r s) = updatedAt s"
  "selectedBlocks (applyHistoryItem item r s) = selectedBlocks s"
  "focusedBlock (applyHistoryItem item r s) = focusedBlock s"
  "editMode (applyHistoryItem item r s) = editMode s"
  "readOnly (applyHistoryItem item r s) = readOnly s"
  "metadata (applyHistoryItem item r s) = metadata s"
  "doc_state.more (applyHistoryItem item r s) = doc_state.more s"
  by (simp_all add: applyHistoryItem_def Let_def split: history_data.splits)

lemma serialize_eqI:
  "documentId s' = documentId s \<Longrightarrow> title s' = title s \<Longrightarrow> version s' = version s \<Longrightarrow>
   createdAt s' = createdAt s \<Longrightarrow> metadata s' = metadata s \<Longrightarrow>
   blocks s' = blocks s \<Longrightarrow> blockOrder s' = blockOrder s \<Longrightarrow>
   serialize s' = (serialize s)\<lparr>dd_updatedAt := Some (updatedAt s')\<rparr>"
  by (simp add: serialize_def getBlocks_def)

lemma filter_splice_insert:
  assumes "k \<notin> set xs"
  shows "filter (\<lambda>i. i \<noteq> k) (splice p 0 [k] xs) = xs"
proof -
  define n where "n = nat (if p < 0 then max (int (length xs) + p) 0
                           else min p (int (length xs)))"
  have "splice p 0 [k] xs = take n xs @ k # drop n xs"
    unfolding n_def by (rule splice_insert)
  then have "filter (\<lambda>i. i \<noteq> k) (splice p 0 [k] xs)
      = filter (\<lambda>i. i \<noteq> k) (take n xs) @ filter (\<lambda>i. i \<noteq> k) (drop n xs)" by simp
  also have "\<dots> = filter (\<lambda>i. i \<noteq> k) (take n xs @ drop n xs)"
    by (simp only: filter_append)
  also have "\<dots> = filter (\<lambda>i. i \<noteq> k) xs" by (simp only: append_take_drop_id)
  also from assms have "\<dots> = xs" by (auto simp: filter_id_conv)
  finally show ?thesis .
qed

lemma addBlock_shape:
  "\<exists>b bo. state (snd (addBlock now rnd blockData position st))
          = (saveToHistory now
               (AddBlockData (or_else (d_id blockData) (generateBlockId now rnd)) b)
               ((state st)
                  \<lparr>blocks := (blocks (state st))
                      (or_else (d_id blockData) (generateBlockId now rnd) \<mapsto> b),
                   blockOrder := bo\<rparr>))
            \<lparr>updatedAt := now\<rparr>"
  by (auto simp: addBlock_def Let_def state_notify split: option.splits)

lemma addBlock_order_appends:
  "appends position (length (blockOrder (state st))) \<Longrightarrow>
   blockOrder (state (snd (addBlock now rnd blockData position st)))
     = blockOrder (state st) @ [or_else (d_id blockData) (generateBlockId now rnd)]"
  unfolding addBlock_order
  by (auto simp: appends_def splice_def Let_def split: option.splits)

lemma addBlock_order_filter:
  assumes "or_else (d_id blockData) (generateBlockId now rnd) \<notin> set (blockOrder (state st))"
  shows "filter (\<lambda>i. i \<noteq> or_else (d_id blockData) (generateBlockId now rnd))
           (blockOrder (state (snd (addBlock now rnd blockData position st))))
         = blockOrder (state st)"
  using assms unfolding addBlock_order
  by (auto simp: filter_splice_insert filter_id_conv split: option.splits)

lemma add_undo_redo:
  assumes c: "cursor_inv (state st)" and mx: "0 < maxHistorySize (state st)"
    and fo: "or_else (d_id blockData) (generateBlockId now rnd) \<notin> set (blockOrder (state st))"
    and fb: "or_else (d_id blockData) (generateBlockId now rnd) \<notin> dom (blocks (state st))"
  shows "\<exists>st'. undo now' (snd (addBlock now rnd blockData position st)) = Inr (True, st') \<and>
           serialize (state st') = (serialize (state st))\<lparr>dd_updatedAt := Some now'\<rparr> \<and>
           (appends position (length (blockOrder (state st))) \<longrightarrow>
              (\<exists>st''. redo now'' st' = Inr (True, st'') \<and>
                 state st'' = (state (snd (addBlock now rnd blockData position st)))
                                \<lparr>updatedAt := now''\<rparr>))"
proof -
  let ?k = "or_else (d_id blockData) (generateBlockId now rnd)"
  let ?st1 = "snd (addBlock now rnd blockData position st)"
  from addBlock_shape [of now rnd blockData position st] obtain b bo where
    sh: "state ?st1 = (saveToHistory now (AddBlockData ?k b)
               ((state st)\<lparr>blocks := (blocks (state st))(?k \<mapsto> b),
                            blockOrder := bo\<rparr>))\<lparr>updatedAt := now\<rparr>"
    by blast
  let ?s2 = "(state st)\<lparr>blocks := (blocks (state st))(?k \<mapsto> b), blockOrder := bo\<rparr>"
  let ?e = "\<lparr>h_data = AddBlockData ?k b, h_timestamp = now\<rparr>"
  from c have c2: "cursor_inv ?s2" by (simp add: cursor_inv_def)
  from mx have m2: "0 < maxHistorySize ?s2" by simp
  from record_then_undo [OF c2 m2 sh, of now'] obtain st' where
    u: "undo now' ?st1 = Inr (True, st')"
    and su: "state st' = (applyHistoryItem ?e True (state ?st1))
                           \<lparr>historyIndex := historyIndex (state ?st1) - 1, updatedAt := now'\<rparr>"
    by blast
  have b1: "blocks (state ?st1) = (blocks (state st))(?k \<mapsto> b)"
    by (simp add: sh saveToHistory_frame)
  from fb have bu: "blocks (state st') = blocks (state st)"
    by (auto simp: su applyHistoryItem_def b1)
  have ou: "blockOrder (state st') = blockOrder (state st)"
    using addBlock_order_filter [OF fo, of position] by (simp add: su applyHistoryItem_def)
  have fr: "documentId (state st') = documentId (state st)" "title (state st') = title (state st)"
    "version (state st') = version (state st)" "createdAt (state st') = createdAt (state st)"
    "metadata (state st') = metadata (state st)"
    unfolding su by (simp_all add: applyHistoryItem_frame) 
      (simp_all add: sh saveToHistory_frame saveToHistory_frame2)
  have up: "updatedAt (state st') = now'" by (simp add: su)
  from serialize_eqI [OF fr bu ou] up
  have ser: "serialize (state st') = (serialize (state st))\<lparr>dd_updatedAt := Some now'\<rparr>"
    by simp
  have "\<exists>st''. redo now'' st' = Inr (True, st'') \<and>
          state st'' = (state ?st1)\<lparr>updatedAt := now''\<rparr>"
    if ap: "appends position (length (blockOrder (state st)))"
  proof -
    from record_undo_redo [OF c2 m2 sh su, of now''] obtain st'' where
      r: "redo now'' st' = Inr (True, st'')"
      and sr: "state st'' = (applyHistoryItem ?e False
                 ((state st')\<lparr>historyIndex := historyIndex (state ?st1)\<rparr>))
                 \<lparr>updatedAt := now''\<rparr>"
      by blast
    have o1: "blockOrder (state ?st1) = blockOrder (state st) @ [?k]"
      using ap by (rule addBlock_order_appends)
    from fo have ff: "filter (\<lambda>i. i \<noteq> ?k) (blockOrder (state st)) = blockOrder (state st)"
      by (auto simp: filter_id_conv)
    have "state st'' = (state ?st1)\<lparr>updatedAt := now''\<rparr>"
      unfolding sr
      by (rule doc_state.equality)
         (simp_all add: applyHistoryItem_def bu ou b1 o1 su ff applyHistoryItem_frame
            applyHistoryItem_history)
    with r show ?thesis by blast
  qed
  with u ser show ?thesis by blast
qed

lemma remove_inserted:
  assumes "k \<notin> set M"
  shows "splice (indexOf k (splice p 0 [k] M)) 1 [] (splice p 0 [k] M) = M"
proof -
  define n where "n = nat (if p < 0 then max (int (length M) + p) 0
                           else min p (int (length M)))"
  have L: "splice p 0 [k] M = take n M @ k # drop n M"
    unfolding n_def by (rule splice_insert)
  from assms have "k \<notin> set (take n M)" by (auto dest: in_set_takeD)
  then have "indexOf k (take n M @ k # drop n M) = int (length (take n M))"
    by (rule indexOf_append_fresh)
  then have "splice (indexOf k (splice p 0 [k] M)) 1 [] (splice p 0 [k] M)
      = take n M @ drop n M"
    unfolding L by (simp only: splice_remove_at)
  then show ?thesis by (simp only: append_take_drop_id)
qed

lemma move_back:
  assumes "distinct xs" and "k \<in> set xs"
  shows "splice (indexOf k xs) 0 [k]
           (splice (indexOf k (splice p 0 [k] (splice (indexOf k xs) 1 [] xs))) 1 []
              (splice p 0 [k] (splice (indexOf k xs) 1 [] xs))) = xs"
proof -
  from indexOf_split [OF assms(2)] obtain ys zs
    where xs: "xs = ys @ k # zs" and i: "indexOf k xs = int (length ys)" by blast
  have r: "splice (indexOf k xs) 1 [] xs = ys @ zs"
    unfolding i unfolding xs by (rule splice_remove_at)
  from assms(1) have "k \<notin> set (ys @ zs)" by (simp add: xs)
  then have "splice (indexOf k (splice p 0 [k] (ys @ zs))) 1 [] (splice p 0 [k] (ys @ zs))
      = ys @ zs" by (rule remove_inserted)
  then show ?thesis unfolding r unfolding i by (simp only: splice_insert_at xs)
qed

lemmas move_back_Suc = move_back [unfolded One_nat_def]

lemma removeBlock_shape:
  assumes "blocks (state st) blockId = Some b"
  shows "fst (removeBlock now blockId st) = True \<and>
     state (snd (removeBlock now blockId st))
          = (saveToHistory now (RemoveBlockData blockId b)
               ((state st)
                  \<lparr>blocks := (blocks (state st))(blockId := None),
                   blockOrder := filter (\<lambda>i. i \<noteq> blockId) (blockOrder (state st)),
                   selectedBlocks := set_delete blockId (selectedBlocks (state st)),
                   focusedBlock := (if focusedBlock (state st) = Some blockId then None
                                    else focusedBlock (state st))\<rparr>))
            \<lparr>updatedAt := now\<rparr>"
  using assms by (auto simp: removeBlock_def Let_def state_notify)

lemma updateBlock_shape:
  assumes "blocks (state st) blockId = Some b"
  shows "fst (updateBlock now blockId updates st) = True \<and>
     (\<exists>u. state (snd (updateBlock now blockId updates st))
          = (saveToHistory now (UpdateBlockData blockId b u)
               ((state st)\<lparr>blocks := (blocks (state st))(blockId \<mapsto> u)\<rparr>))
            \<lparr>updatedAt := now\<rparr>)"
  using assms by (auto simp: updateBlock_def Let_def state_notify)

lemma moveBlock_shape:
  assumes "blockId \<in> set (blockOrder (state st))"
  shows "fst (moveBlock now blockId newPosition st) = True \<and>
     state (snd (moveBlock now blockId newPosition st))
          = (saveToHistory now
               (MoveBlockData blockId (indexOf blockId (blockOrder (state st))) newPosition)
               ((state st)
                  \<lparr>blockOrder := splice newPosition 0 [blockId]
                      (splice (indexOf blockId (blockOrder (state st))) 1 []
                         (blockOrder (state st)))\<rparr>))
            \<lparr>updatedAt := now\<rparr>"
  using assms by (simp add: moveBlock_def Let_def state_notify indexOf_neg_iff)

lemma remove_undo_redo:
  assumes c: "cursor_inv (state st)" and mx: "0 < maxHistorySize (state st)"
    and pr: "blocks (state st) blockId = Some b"
  shows "\<exists>st'. undo now' (snd (removeBlock now blockId st)) = Inr (True, st') \<and>
           serialize (state st')
             = serialize ((state st)
                 \<lparr>blockOrder := filter (\<lambda>i. i \<noteq> blockId) (blockOrder (state st)) @ [blockId],
                  updatedAt := now'\<rparr>) \<and>
           (\<exists>st''. redo now'' st' = Inr (True, st'') \<and>
              state st'' = (state (snd (removeBlock now blockId st)))\<lparr>updatedAt := now''\<rparr>)"
proof -
  let ?st1 = "snd (removeBlock now blockId st)"
  let ?s2 = "(state st)
      \<lparr>blocks := (blocks (state st))(blockId := None),
       blockOrder := filter (\<lambda>i. i \<noteq> blockId) (blockOrder (state st)),
       selectedBlocks := set_delete blockId (selectedBlocks (state st)),
       focusedBlock := (if focusedBlock (state st) = Some blockId then None
                        else focusedBlock (state st))\<rparr>"
  let ?e = "\<lparr>h_data = RemoveBlockData blockId b, h_timestamp = now\<rparr>"
  from removeBlock_shape [OF pr, of now]
  have sh: "state ?st1 = (saveToHistory now (RemoveBlockData blockId b) ?s2)\<lparr>updatedAt := now\<rparr>"
    by blast
  from c have c2: "cursor_inv ?s2" by (simp add: cursor_inv_def)
  from mx have m2: "0 < maxHistorySize ?s2" by simp
  from record_then_undo [OF c2 m2 sh, of now'] obtain st' where
    u: "undo now' ?st1 = Inr (True, st')"
    and su: "state st' = (applyHistoryItem ?e True (state ?st1))
                           \<lparr>historyIndex := historyIndex (state ?st1) - 1, updatedAt := now'\<rparr>"
    by blast
  have b1: "blocks (state ?st1) = (blocks (state st))(blockId := None)"
    and o1: "blockOrder (state ?st1) = filter (\<lambda>i. i \<noteq> blockId) (blockOrder (state st))"
    by (simp_all add: sh saveToHistory_frame)
  from pr have bu: "blocks (state st') = blocks (state st)"
    by (auto simp: su applyHistoryItem_def b1)
  have ou: "blockOrder (state st')
              = filter (\<lambda>i. i \<noteq> blockId) (blockOrder (state st)) @ [blockId]"
    by (simp add: su applyHistoryItem_def o1)
  have fr: "documentId (state st') = documentId (state st)" "title (state st') = title (state st)"
    "version (state st') = version (state st)" "createdAt (state st') = createdAt (state st)"
    "metadata (state st') = metadata (state st)"
    unfolding su by (simp_all add: applyHistoryItem_frame)
      (simp_all add: sh saveToHistory_frame saveToHistory_frame2)
  have up: "updatedAt (state st') = now'" by (simp add: su)
  have ser: "serialize (state st')
             = serialize ((state st)
                 \<lparr>blockOrder := filter (\<lambda>i. i \<noteq> blockId) (blockOrder (state st)) @ [blockId],
                  updatedAt := now'\<rparr>)"
    by (simp add: serialize_def getBlocks_def fr bu ou up)
  from record_undo_redo [OF c2 m2 sh su, of now''] obtain st'' where
    r: "redo now'' st' = Inr (True, st'')"
    and sr: "state st'' = (applyHistoryItem ?e False
               ((state st')\<lparr>historyIndex := historyIndex (state ?st1)\<rparr>))
               \<lparr>updatedAt := now''\<rparr>"
    by blast
  have "state st'' = (state ?st1)\<lparr>updatedAt := now''\<rparr>"
    unfolding sr
    by (rule doc_state.equality)
       (simp_all add: applyHistoryItem_def bu ou b1 o1 su applyHistoryItem_frame
          applyHistoryItem_history)
  with r u ser show ?thesis by blast
qed

lemma update_undo_redo:
  assumes c: "cursor_inv (state st)" and mx: "0 < maxHistorySize (state st)"
    and pr: "blocks (state st) blockId = Some b"
  shows "\<exists>st'. undo now' (snd (updateBlock now blockId updates st)) = Inr (True, st') \<and>
           serialize (state st') = (serialize (state st))\<lparr>dd_updatedAt := Some now'\<rparr> \<and>
           (\<exists>st''. redo now'' st' = Inr (True, st'') \<and>
              state st'' = (state (snd (updateBlock now blockId updates st)))
                             \<lparr>updatedAt := now''\<rparr>)"
proof -
  let ?st1 = "snd (updateBlock now blockId updates st)"
  from updateBlock_shape [OF pr, of now updates] obtain v where
    sh: "state ?st1 = (saveToHistory now (UpdateBlockData blockId b v)
               ((state st)\<lparr>blocks := (blocks (state st))(blockId \<mapsto> v)\<rparr>))\<lparr>updatedAt := now\<rparr>"
    by blast
  let ?s2 = "(state st)\<lparr>blocks := (blocks (state st))(blockId \<mapsto> v)\<rparr>"
  let ?e = "\<lparr>h_data = UpdateBlockData blockId b v, h_timestamp = now\<rparr>"
  from c have c2: "cursor_inv ?s2" by (simp add: cursor_inv_def)
  from mx have m2: "0 < maxHistorySize ?s2" by simp
  from record_then_undo [OF c2 m2 sh, of now'] obtain st' where
    u: "undo now' ?st1 = Inr (True, st')"
    and su: "state st' = (applyHistoryItem ?e True (state ?st1))
                           \<lparr>historyIndex := historyIndex (state ?st1) - 1, updatedAt := now'\<rparr>"
    by blast
  have b1: "blocks (state ?st1) = (blocks (state st))(blockId \<mapsto> v)"
    and o1: "blockOrder (state ?st1) = blockOrder (state st)"
    by (simp_all add: sh saveToHistory_frame)
  from pr have bu: "blocks (state st') = blocks (state st)"
    by (auto simp: su applyHistoryItem_def b1)
  have ou: "blockOrder (state st') = blockOrder (state st)"
    by (simp add: su applyHistoryItem_def o1)
  have fr: "documentId (state st') = documentId (state st)" "title (state st') = title (state st)"
    "version (state st') = version (state st)" "createdAt (state st') = createdAt (state st)"
    "metadata (state st') = metadata (state st)"
    unfolding su by (simp_all add: applyHistoryItem_frame)
      (simp_all add: sh saveToHistory_frame saveToHistory_frame2)
  have up: "updatedAt (state st') = now'" by (simp add: su)
  from serialize_eqI [OF fr bu ou] up
  have ser: "serialize (state st') = (serialize (state st))\<lparr>dd_updatedAt := Some now'\<rparr>"
    by simp
  from record_undo_redo [OF c2 m2 sh su, of now''] obtain st'' where
    r: "redo now'' st' = Inr (True, st'')"
    and sr: "state st'' = (applyHistoryItem ?e False
               ((state st')\<lparr>historyIndex := historyIndex (state ?st1)\<rparr>))
               \<lparr>updatedAt := now''\<rparr>"
    by blast
  have "state st'' = (state ?st1)\<lparr>updatedAt := now''\<rparr>"
    unfolding sr
    by (rule doc_state.equality)
       (simp_all add: applyHistoryItem_def bu ou b1 o1 su applyHistoryItem_frame
          applyHistoryItem_history)
  with r u ser show ?thesis by blast
qed

lemma move_undo_redo:
  assumes c: "cursor_inv (state st)" and mx: "0 < maxHistorySize (state st)"
    and d: "distinct (blockOrder (state st))"
    and pr: "blockId \<in> set (blockOrder (state st))"
  shows "\<exists>st'. undo now' (snd (moveBlock now blockId newPosition st)) = Inr (True, st') \<and>
           serialize (state st') = (serialize (state st))\<lparr>dd_updatedAt := Some now'\<rparr> \<and>
           (\<exists>st''. redo now'' st' = Inr (True, st'') \<and>
              state st'' = (state (snd (moveBlock now blockId newPosition st)))
                             \<lparr>updatedAt := now''\<rparr>)"
proof -
  let ?st1 = "snd (moveBlock now blockId newPosition st)"
  let ?from = "indexOf blockId (blockOrder (state st))"
  let ?O1 = "splice newPosition 0 [blockId] (splice ?from 1 [] (blockOrder (state st)))"
  let ?s2 = "(state st)\<lparr>blockOrder := ?O1\<rparr>"
  let ?e = "\<lparr>h_data = MoveBlockData blockId ?from newPosition, h_timestamp = now\<rparr>"
  from moveBlock_shape [OF pr, of now newPosition]
  have sh: "state ?st1 = (saveToHistory now (MoveBlockData blockId ?from newPosition) ?s2)
                           \<lparr>updatedAt := now\<rparr>"
    by blast
  from c have c2: "cursor_inv ?s2" by (simp add: cursor_inv_def)
  from mx have m2: "0 < maxHistorySize ?s2" by simp
  from record_then_undo [OF c2 m2 sh, of now'] obtain st' where
    u: "undo now' ?st1 = Inr (True, st')"
    and su: "state st' = (applyHistoryItem ?e True (state ?st1))
                           \<lparr>historyIndex := historyIndex (state ?st1) - 1, updatedAt := now'\<rparr>"
    by blast
  have b1: "blocks (state ?st1) = blocks (state st)"
    and o1: "blockOrder (state ?st1) = ?O1"
    by (simp_all add: sh saveToHistory_frame)
  have bu: "blocks (state st') = blocks (state st)"
    by (simp add: su applyHistoryItem_def b1 Let_def)
  have "blockOrder (state st')
      = splice ?from 0 [blockId] (splice (indexOf blockId ?O1) 1 [] ?O1)"
    unfolding su applyHistoryItem_def by (simp add: Let_def o1)
  with move_back [OF d pr, of newPosition]
  have ou: "blockOrder (state st') = blockOrder (state st)" by simp
  have fr: "documentId (state st') = documentId (state st)" "title (state st') = title (state st)"
    "version (state st') = version (state st)" "createdAt (state st') = createdAt (state st)"
    "metadata (state st') = metadata (state st)"
    unfolding su by (simp_all add: applyHistoryItem_frame)
      (simp_all add: sh saveToHistory_frame saveToHistory_frame2)
  have up: "updatedAt (state st') = now'" by (simp add: su)
  from serialize_eqI [OF fr bu ou] up
  have ser: "serialize (state st') = (serialize (state st))\<lparr>dd_updatedAt := Some now'\<rparr>"
    by simp
  from record_undo_redo [OF c2 m2 sh su, of now''] obtain st'' where
    r: "redo now'' st' = Inr (True, st'')"
    and sr: "state st'' = (applyHistoryItem ?e False
               ((state st')\<lparr>historyIndex := historyIndex (state ?st1)\<rparr>))
               \<lparr>updatedAt := now''\<rparr>"
    by blast
  have "state st'' = (state ?st1)\<lparr>updatedAt := now''\<rparr>"
    unfolding sr
    by (rule doc_state.equality)
       (simp_all add: applyHistoryItem_def Let_def b1 o1 su applyHistoryItem_frame
          applyHistoryItem_history move_back_Suc [OF d pr])
  with r u ser show ?thesis by blast
qed

lemma fst_removeBlock: "fst (removeBlock now blockId st) \<longleftrightarrow> blocks (state st) blockId \<noteq> None"
  by (auto simp: removeBlock_def Let_def split: option.splits)

lemma fst_updateBlock:
  "fst (updateBlock now blockId updates st) \<longleftrightarrow> blocks (state st) blockId \<noteq> None"
  by (auto simp: updateBlock_def Let_def split: option.splits)

lemma fst_moveBlock:
  "fst (moveBlock now blockId newPosition st) \<longleftrightarrow> blockId \<in> set (blockOrder (state st))"
  by (simp add: moveBlock_def Let_def indexOf_neg_iff)

lemma perform_undo_redo:
  assumes c: "cursor_inv (state st)" and mx: "0 < maxHistorySize (state st)"
    and inv: "store_inv (state st)"
    and fr: "fresh_add now rnd m (state st)"
    and ok: "fst (perform now rnd m st)"
  shows "\<exists>st'. undo now' (snd (perform now rnd m st)) = Inr (True, st') \<and>
           serialize (state st')
             = (case m of
                  RemoveBlockOp blockId \<Rightarrow>
                    serialize ((state st)
                      \<lparr>blockOrder := filter (\<lambda>i. i \<noteq> blockId) (blockOrder (state st))
                                       @ [blockId],
                       updatedAt := now'\<rparr>)
                | _ \<Rightarrow> (serialize (state st))\<lparr>dd_updatedAt := Some now'\<rparr>) \<and>
           (at_end m (state st) \<longrightarrow>
              (\<exists>st''. redo now'' st' = Inr (True, st'') \<and>
                 state st'' = (state (snd (perform now rnd m st)))\<lparr>updatedAt := now''\<rparr>))"
proof (cases m)
  case (AddBlockOp blockData position)
  from fr inv AddBlockOp
  have "or_else (d_id blockData) (generateBlockId now rnd) \<notin> dom (blocks (state st))"
    and "or_else (d_id blockData) (generateBlockId now rnd) \<notin> set (blockOrder (state st))"
    by (simp_all add: fresh_add_def store_inv_def)
  from add_undo_redo [OF c mx this(2) this(1), of now' position now''] AddBlockOp
  show ?thesis by (simp add: perform_def at_end_def)
next
  case (RemoveBlockOp blockId)
  with ok obtain b where "blocks (state st) blockId = Some b"
    by (auto simp: perform_def fst_removeBlock)
  from remove_undo_redo [OF c mx this, of now' now now''] RemoveBlockOp
  show ?thesis by (simp add: perform_def at_end_def)
next
  case (UpdateBlockOp blockId updates)
  with ok obtain b where "blocks (state st) blockId = Some b"
    by (auto simp: perform_def fst_updateBlock)
  from update_undo_redo [OF c mx this, of now' now updates now''] UpdateBlockOp
  show ?thesis by (simp add: perform_def at_end_def)
next
  case (MoveBlockOp blockId newPosition)
  with ok have pr: "blockId \<in> set (blockOrder (state st))"
    by (simp add: perform_def fst_moveBlock)
  from inv have d: "distinct (blockOrder (state st))" by (simp add: store_inv_def)
  from move_undo_redo [OF c mx d pr, of now' now newPosition now''] MoveBlockOp
  show ?thesis by (simp add: perform_def at_end_def)
qed

text \<open>
  Claim C2, amended. In a state whose cursor is in range, whose history bound is positive
  and whose ordering index agrees with the block store, after a mutation that succeeded
  (an \<^verbatim>\<open>addBlock\<close> under an identity that was not a key of the store, at any position; a
  \<^verbatim>\<open>removeBlock\<close>, \<^verbatim>\<open>updateBlock\<close> or \<^verbatim>\<open>moveBlock\<close> that returned true), \<^verbatim>\<open>undo()\<close>
  returns true and \<^verbatim>\<open>serialize()\<close> then gives the output it gave before the mutation,
  with \<open>updatedAt\<close> set to the time of the undo. After \<^verbatim>\<open>removeBlock\<close> it gives that
  output with the removed block at the end of the order.
\<close>

theorem undo_restores_serialize:
  assumes "cursor_inv (state st)" and "0 < maxHistorySize (state st)"
    and "store_inv (state st)"
    and "fresh_add now rnd m (state st)"
    and "fst (perform now rnd m st)"
  shows "\<exists>st'. undo now' (snd (perform now rnd m st)) = Inr (True, st') \<and>
           serialize (state st')
             = (case m of
                  RemoveBlockOp blockId \<Rightarrow>
                    serialize ((state st)
                      \<lparr>blockOrder := filter (\<lambda>i. i \<noteq> blockId) (blockOrder (state st))
                                       @ [blockId],
                       updatedAt := now'\<rparr>)
                | _ \<Rightarrow> (serialize (state st))\<lparr>dd_updatedAt := Some now'\<rparr>)"
  using perform_undo_redo [OF assms, of now' now''] by blast

text \<open>
  Claim C3, amended. In such a state, after a \<^verbatim>\<open>removeBlock\<close>, \<^verbatim>\<open>updateBlock\<close> or
  \<^verbatim>\<open>moveBlock\<close> that returned true, or an \<^verbatim>\<open>addBlock\<close> under a new identity that put the
  block at the end of the order, \<^verbatim>\<open>undo()\<close> and then \<^verbatim>\<open>redo()\<close> both return true and
  leave the state the mutation left (block store, ordering index, selection, focus,
  history and cursor), with \<open>updatedAt\<close> set to the time of the redo.
\<close>

theorem redo_restores_state:
  assumes "cursor_inv (state st)" and "0 < maxHistorySize (state st)"
    and "store_inv (state st)"
    and "fresh_add now rnd m (state st)"
    and "fst (perform now rnd m st)"
    and "at_end m (state st)"
  shows "\<exists>st' st''. undo now' (snd (perform now rnd m st)) = Inr (True, st') \<and>
           redo now'' st' = Inr (True, st'') \<and>
           state st'' = (state (snd (perform now rnd m st)))\<lparr>updatedAt := now''\<rparr>"
  using perform_undo_redo [OF assms(1-5), of now' now''] assms(6) by blast

lemma demo_dom: "dom (blocks (state demo)) = {''a'', ''b''}"
  by (auto simp: demo_def eval_defs split: if_splits)

lemma demo_store_inv: "store_inv (state demo)"
  by (auto simp: store_inv_def demo_order demo_dom)

lemma demo_cursor_inv: "cursor_inv (state demo)"
  by (simp add: cursor_inv_def demo_cursor)

theorem undo_restores_serialize_witness:
  "cursor_inv (state demo) \<and> 0 < maxHistorySize (state demo) \<and> store_inv (state demo) \<and>
   fresh_add 3 ''r3'' (AddBlockOp (block_with ''c'' ''C'') (Some 1)) (state demo) \<and>
   fst (perform 3 ''r3'' (AddBlockOp (block_with ''c'' ''C'') (Some 1)) demo) \<and>
   (\<exists>st'. undo 4 (snd (perform 3 ''r3'' (AddBlockOp (block_with ''c'' ''C'') (Some 1)) demo))
            = Inr (True, st') \<and>
          serialize (state st') = (serialize (state demo))\<lparr>dd_updatedAt := Some 4\<rparr>) \<and>
   fresh_add 3 ''r3'' (RemoveBlockOp ''a'') (state demo) \<and>
   fst (perform 3 ''r3'' (RemoveBlockOp ''a'') demo) \<and>
   (\<exists>st'. undo 4 (snd (perform 3 ''r3'' (RemoveBlockOp ''a'') demo)) = Inr (True, st') \<and>
          serialize (state st')
            = serialize ((state demo)\<lparr>blockOrder := [''b'', ''a''], updatedAt := 4\<rparr>))"
proof -
  have mx: "0 < maxHistorySize (state demo)" by (simp add: demo_max)
  have f1: "fresh_add 3 ''r3'' (AddBlockOp (block_with ''c'' ''C'') (Some 1)) (state demo)"
    by (simp add: fresh_add_def demo_dom or_else_def block_with_def)
  have p1: "fst (perform 3 ''r3'' (AddBlockOp (block_with ''c'' ''C'') (Some 1)) demo)"
    by (simp add: perform_def)
  have f2: "fresh_add 3 ''r3'' (RemoveBlockOp ''a'') (state demo)"
    by (simp add: fresh_add_def)
  have p2: "fst (perform 3 ''r3'' (RemoveBlockOp ''a'') demo)"
    by (simp add: perform_def fst_removeBlock demo_blocks)
  from undo_restores_serialize [OF demo_cursor_inv mx demo_store_inv f1 p1, of 4]
    undo_restores_serialize [OF demo_cursor_inv mx demo_store_inv f2 p2, of 4]
    demo_cursor_inv mx demo_store_inv f1 p1 f2 p2
  show ?thesis by (simp add: demo_order)
qed

lemma addBlock_max:
  "maxHistorySize (state (snd (addBlock now rnd blockData position st)))
     = maxHistorySize (state st)"
  by (auto simp: addBlock_def Let_def state_notify saveToHistory_frame split: option.splits)

lemma addBlock_updatedAt:
  "updatedAt (state (snd (addBlock now rnd blockData position st))) = now"
  by (simp add: addBlock_def Let_def state_notify)

lemma add_undo_fields:
  assumes c: "cursor_inv (state st)" and mx: "0 < maxHistorySize (state st)"
  shows "\<exists>st'. undo now' (snd (addBlock now rnd blockData position st)) = Inr (True, st') \<and>
           blocks (state st')
             = (blocks (state st))(or_else (d_id blockData) (generateBlockId now rnd) := None) \<and>
           blockOrder (state st')
             = filter (\<lambda>i. i \<noteq> or_else (d_id blockData) (generateBlockId now rnd))
                 (blockOrder (state (snd (addBlock now rnd blockData position st)))) \<and>
           updatedAt (state st') = now' \<and>
           (\<exists>st''. redo now'' st' = Inr (True, st'') \<and>
              blockOrder (state st'')
                = blockOrder (state st') @ [or_else (d_id blockData) (generateBlockId now rnd)] \<and>
              updatedAt (state st'') = now'')"
proof -
  let ?k = "or_else (d_id blockData) (generateBlockId now rnd)"
  let ?st1 = "snd (addBlock now rnd blockData position st)"
  from addBlock_shape [of now rnd blockData position st] obtain b bo where
    sh: "state ?st1 = (saveToHistory now (AddBlockData ?k b)
               ((state st)\<lparr>blocks := (blocks (state st))(?k \<mapsto> b),
                            blockOrder := bo\<rparr>))\<lparr>updatedAt := now\<rparr>"
    by blast
  let ?s2 = "(state st)\<lparr>blocks := (blocks (state st))(?k \<mapsto> b), blockOrder := bo\<rparr>"
  let ?e = "\<lparr>h_data = AddBlockData ?k b, h_timestamp = now\<rparr>"
  from c have c2: "cursor_inv ?s2" by (simp add: cursor_inv_def)
  from mx have m2: "0 < maxHistorySize ?s2" by simp
  from record_then_undo [OF c2 m2 sh, of now'] obtain st' where
    u: "undo now' ?st1 = Inr (True, st')"
    and su: "state st' = (applyHistoryItem ?e True (state ?st1))
                           \<lparr>historyIndex := historyIndex (state ?st1) - 1, updatedAt := now'\<rparr>"
    by blast
  have b1: "blocks (state ?st1) = (blocks (state st))(?k \<mapsto> b)"
    by (simp add: sh saveToHistory_frame)
  have bu: "blocks (state st') = (blocks (state st))(?k := None)"
    by (simp add: su applyHistoryItem_def b1)
  have ou: "blockOrder (state st') = filter (\<lambda>i. i \<noteq> ?k) (blockOrder (state ?st1))"
    by (simp add: su applyHistoryItem_def)
  have up: "updatedAt (state st') = now'" by (simp add: su)
  from record_undo_redo [OF c2 m2 sh su, of now''] obtain st'' where
    r: "redo now'' st' = Inr (True, st'')"
    and sr: "state st'' = (applyHistoryItem ?e False
               ((state st')\<lparr>historyIndex := historyIndex (state ?st1)\<rparr>))
               \<lparr>updatedAt := now''\<rparr>"
    by blast
  have "blockOrder (state st'') = blockOrder (state st') @ [?k]"
    and "updatedAt (state st'') = now''"
    by (simp_all add: sr applyHistoryItem_def)
  with u bu ou up r show ?thesis by blast
qed

lemma fresh_hist_inv: "hist_inv (state fresh)"
  by (simp add: fresh_def constructor_def hist_inv_def cursor_inv_def)

lemma fresh_facts:
  "blockOrder (state fresh) = []" "blocks (state fresh) = Map.empty"
  "maxHistorySize (state fresh) = 50"
  by (simp_all add: fresh_def constructor_def)

lemma once_facts:
  "blockOrder (state (snd (addBlock 10 ''r'' (block_with ''a'' ''A'') None fresh))) = [''a'']"
  "blocks (state (snd (addBlock 10 ''r'' (block_with ''a'' ''A'') None fresh)))
     = [''a'' \<mapsto> \<lparr>b_id = ''a'', b_type = ''text-block'', b_content = ''A'',
                     b_attributes = [], b_createdAt = 10, b_updatedAt = 10, b_extra = []\<rparr>]"
  "cursor_inv (state (snd (addBlock 10 ''r'' (block_with ''a'' ''A'') None fresh)))"
  "0 < maxHistorySize (state (snd (addBlock 10 ''r'' (block_with ''a'' ''A'') None fresh)))"
  "updatedAt (state (snd (addBlock 10 ''r'' (block_with ''a'' ''A'') None fresh))) = 10"
proof -
  show "blockOrder (state (snd (addBlock 10 ''r'' (block_with ''a'' ''A'') None fresh))) = [''a'']"
    by (simp add: addBlock_order fresh_facts or_else_def block_with_def)
  show "blocks (state (snd (addBlock 10 ''r'' (block_with ''a'' ''A'') None fresh)))
     = [''a'' \<mapsto> \<lparr>b_id = ''a'', b_type = ''text-block'', b_content = ''A'',
                     b_attributes = [], b_createdAt = 10, b_updatedAt = 10, b_extra = []\<rparr>]"
    by (simp add: fresh_def eval_defs)
  show "cursor_inv (state (snd (addBlock 10 ''r'' (block_with ''a'' ''A'') None fresh)))"
    by (intro hist_inv_cursor addBlock_hist_inv fresh_hist_inv)
  show "0 < maxHistorySize (state (snd (addBlock 10 ''r'' (block_with ''a'' ''A'') None fresh)))"
    by (simp add: addBlock_max fresh_facts)
  show "updatedAt (state (snd (addBlock 10 ''r'' (block_with ''a'' ''A'') None fresh))) = 10"
    by (rule addBlock_updatedAt)
qed

text \<open>
  \<^verbatim>\<open>addBlock\<close> under an identity in use, then \<^verbatim>\<open>undo()\<close>: the block that was there
  before is gone, and the update time is that of the undo.
\<close>

theorem undo_restores_serialize_counterexample:
  "map_sum id (\<lambda>st. (dd_blocks (serialize (state st)), dd_updatedAt (serialize (state st))))
     (run [call_of (Mutate (AddBlockOp (block_with ''a'' ''A'') None)) 10] fresh)
     = Inr (Some [\<lparr>d_id = Some ''a'', d_type = Some ''text-block'', d_content = Some ''A'',
                    d_attributes = Some [], d_createdAt = Some 10, d_updatedAt = Some 10,
                    d_extra = []\<rparr>], Some 10) \<and>
   map_sum id (\<lambda>st. (dd_blocks (serialize (state st)), dd_updatedAt (serialize (state st))))
     (run [call_of (Mutate (AddBlockOp (block_with ''a'' ''A'') None)) 10,
           call_of (Mutate (AddBlockOp (block_with ''a'' ''A2'') None)) 20,
           call_of Undo 30] fresh)
     = Inr (Some [], Some 30)"
proof -
  let ?P = "snd (addBlock 10 ''r'' (block_with ''a'' ''A'') None fresh)"
  let ?X = "snd (addBlock 20 ''r'' (block_with ''a'' ''A2'') None ?P)"
  have k: "or_else (d_id (block_with ''a'' ''A2'')) (generateBlockId 20 ''r'') = ''a''"
    by (simp add: or_else_def block_with_def)
  from add_undo_fields [OF once_facts(3,4), of 30 20 "''r''" "block_with ''a'' ''A2''" None]
  obtain st' where u: "undo 30 ?X = Inr (True, st')"
    and bu: "blocks (state st') = (blocks (state ?P))(''a'' := None)"
    and ou: "blockOrder (state st') = filter (\<lambda>i. i \<noteq> ''a'') (blockOrder (state ?X))"
    and up: "updatedAt (state st') = 30"
    unfolding k by blast
  have "blockOrder (state ?X) = [''a'', ''a'']"
    by (simp add: addBlock_order [of 20] once_facts k)
  with ou have o: "blockOrder (state st') = []" by simp
  have 1: "run [call_of (Mutate (AddBlockOp (block_with ''a'' ''A'') None)) 10] fresh = Inr ?P"
    by (simp add: call_of_def exec_def perform_def)
  have 2: "run [call_of (Mutate (AddBlockOp (block_with ''a'' ''A'') None)) 10,
           call_of (Mutate (AddBlockOp (block_with ''a'' ''A2'') None)) 20,
           call_of Undo 30] fresh = Inr st'"
    by (simp add: call_of_def exec_def perform_def u)
  show ?thesis
    unfolding 1 2
    by (simp add: serialize_def getBlocks_def List.map_filter_def serialize_block_def
          once_facts o up)
qed

theorem redo_restores_state_witness:
  "cursor_inv (state demo) \<and> 0 < maxHistorySize (state demo) \<and> store_inv (state demo) \<and>
   fresh_add 3 ''r3'' (MoveBlockOp ''b'' 0) (state demo) \<and>
   fst (perform 3 ''r3'' (MoveBlockOp ''b'' 0) demo) \<and>
   at_end (MoveBlockOp ''b'' 0) (state demo) \<and>
   (\<exists>st' st''. undo 4 (snd (perform 3 ''r3'' (MoveBlockOp ''b'' 0) demo)) = Inr (True, st') \<and>
      redo 5 st' = Inr (True, st'') \<and>
      state st'' = (state (snd (perform 3 ''r3'' (MoveBlockOp ''b'' 0) demo)))\<lparr>updatedAt := 5\<rparr>) \<and>
   fresh_add 3 ''r3'' (AddBlockOp (block_with ''c'' ''C'') None) (state demo) \<and>
   fst (perform 3 ''r3'' (AddBlockOp (block_with ''c'' ''C'') None) demo) \<and>
   at_end (AddBlockOp (block_with ''c'' ''C'') None) (state demo) \<and>
   (\<exists>st' st''. undo 4 (snd (perform 3 ''r3'' (AddBlockOp (block_with ''c'' ''C'') None) demo))
                 = Inr (True, st') \<and>
      redo 5 st' = Inr (True, st'') \<and>
      state st'' = (state (snd (perform 3 ''r3'' (AddBlockOp (block_with ''c'' ''C'') None) demo)))
                     \<lparr>updatedAt := 5\<rparr>)"
proof -
  have mx: "0 < maxHistorySize (state demo)" by (simp add: demo_max)
  have f1: "fresh_add 3 ''r3'' (MoveBlockOp ''b'' 0) (state demo)"
    by (simp add: fresh_add_def)
  have p1: "fst (perform 3 ''r3'' (MoveBlockOp ''b'' 0) demo)"
    by (simp add: perform_def fst_moveBlock demo_order)
  have e1: "at_end (MoveBlockOp ''b'' 0) (state demo)" by (simp add: at_end_def)
  have f2: "fresh_add 3 ''r3'' (AddBlockOp (block_with ''c'' ''C'') None) (state demo)"
    by (simp add: fresh_add_def demo_dom or_else_def block_with_def)
  have p2: "fst (perform 3 ''r3'' (AddBlockOp (block_with ''c'' ''C'') None) demo)"
    by (simp add: perform_def)
  have e2: "at_end (AddBlockOp (block_with ''c'' ''C'') None) (state demo)"
    by (simp add: at_end_def appends_def)
  from redo_restores_state [OF demo_cursor_inv mx demo_store_inv f1 p1 e1, of 4 5]
    redo_restores_state [OF demo_cursor_inv mx demo_store_inv f2 p2 e2, of 4 5]
    demo_cursor_inv mx demo_store_inv f1 p1 e1 f2 p2 e2
  show ?thesis by blast
qed

text \<open>
  The entry recorded by \<^verbatim>\<open>addBlock\<close> does not hold the position: after
  \<^verbatim>\<open>addBlock({id: 'b'}, 0)\<close> on a document holding \<open>a\<close>, undo and redo leave the order
  \<open>a, b\<close>, not \<open>b, a\<close>; and the update time is that of the redo.
\<close>

theorem redo_restores_state_counterexample:
  "map_sum id (\<lambda>st. (blockOrder (state st), updatedAt (state st)))
     (run [call_of (Mutate (AddBlockOp (block_with ''a'' ''A'') None)) 10,
           call_of (Mutate (AddBlockOp (block_with ''b'' ''B'') (Some 0))) 20] fresh)
     = Inr ([''b'', ''a''], 20) \<and>
   map_sum id (\<lambda>st. (blockOrder (state st), updatedAt (state st)))
     (run [call_of (Mutate (AddBlockOp (block_with ''a'' ''A'') None)) 10,
           call_of (Mutate (AddBlockOp (block_with ''b'' ''B'') (Some 0))) 20,
           call_of Undo 30, call_of Redo 40] fresh)
     = Inr ([''a'', ''b''], 40)"
proof -
  let ?P = "snd (addBlock 10 ''r'' (block_with ''a'' ''A'') None fresh)"
  let ?X = "snd (addBlock 20 ''r'' (block_with ''b'' ''B'') (Some 0) ?P)"
  have k: "or_else (d_id (block_with ''b'' ''B'')) (generateBlockId 20 ''r'') = ''b''"
    by (simp add: or_else_def block_with_def)
  from add_undo_fields [OF once_facts(3,4), of 30 20 "''r''" "block_with ''b'' ''B''" "Some 0" 40]
  obtain st' st'' where u: "undo 30 ?X = Inr (True, st')"
    and ou: "blockOrder (state st') = filter (\<lambda>i. i \<noteq> ''b'') (blockOrder (state ?X))"
    and r: "redo 40 st' = Inr (True, st'')"
    and orr: "blockOrder (state st'') = blockOrder (state st') @ [''b'']"
    and ur: "updatedAt (state st'') = 40"
    unfolding k by blast
  have x: "blockOrder (state ?X) = [''b'', ''a'']"
    by (simp add: addBlock_order [of 20] once_facts k splice_def)
  with ou orr have o: "blockOrder (state st'') = [''a'', ''b'']" by simp
  have 1: "run [call_of (Mutate (AddBlockOp (block_with ''a'' ''A'') None)) 10,
           call_of (Mutate (AddBlockOp (block_with ''b'' ''B'') (Some 0))) 20] fresh = Inr ?X"
    by (simp add: call_of_def exec_def perform_def)
  have 2: "run [call_of (Mutate (AddBlockOp (block_with ''a'' ''A'') None)) 10,
           call_of (Mutate (AddBlockOp (block_with ''b'' ''B'') (Some 0))) 20,
           call_of Undo 30, call_of Redo 40] fresh = Inr st''"
    by (simp add: call_of_def exec_def perform_def u r)
  show ?thesis unfolding 1 2 by (simp add: x o ur addBlock_updatedAt)
qed

section \<open>Serialization round trip\<close>

lemma serialize_block_strip: "serialize_block (b\<lparr>b_extra := []\<rparr>) = serialize_block b"
  by (simp add: serialize_block_def)

lemma block_strip:
  "\<lparr>b_id = b_id b, b_type = b_type b, b_content = b_content b,
     b_attributes = b_attributes b, b_createdAt = b_createdAt b,
     b_updatedAt = b_updatedAt b, b_extra = []\<rparr> = b\<lparr>b_extra := []\<rparr>"
  by (cases b) simp

lemma addBlock_serialized:
  assumes "b_id b \<noteq> []"
  shows "blocks (state (snd (addBlock now rnd (serialize_block b) None st)))
           = (blocks (state st))(b_id b \<mapsto> b\<lparr>b_extra := []\<rparr>)"
    and "blockOrder (state (snd (addBlock now rnd (serialize_block b) None st)))
           = blockOrder (state st) @ [b_id b]"
    and "metadata (state (snd (addBlock now rnd (serialize_block b) None st)))
           = metadata (state st)"
  using assms
  by (simp_all add: addBlock_def Let_def state_notify saveToHistory_frame serialize_block_def
        spread_def or_else_def block_strip)

lemma addBlocks_serialized:
  assumes "\<forall>b \<in> set L. b_id b \<noteq> []"
  shows "blocks (state (addBlocks env i (map serialize_block L) st))
           = foldl (\<lambda>m b. m(b_id b \<mapsto> b\<lparr>b_extra := []\<rparr>)) (blocks (state st)) L \<and>
         blockOrder (state (addBlocks env i (map serialize_block L) st))
           = blockOrder (state st) @ map b_id L \<and>
         metadata (state (addBlocks env i (map serialize_block L) st)) = metadata (state st)"
  using assms
proof (induction L arbitrary: i st)
  case Nil
  then show ?case by simp
next
  case (Cons b L)
  from Cons.prems have b: "b_id b \<noteq> []" and r: "\<forall>b \<in> set L. b_id b \<noteq> []" by simp_all
  from Cons.IH [OF r, of "Suc i" "snd (addBlock (fst (env i)) (snd (env i)) (serialize_block b) None st)"]
  show ?case by (simp add: addBlock_serialized [OF b])
qed

lemma deserialize_serialized:
  assumes "\<forall>b \<in> set (getBlocks s). b_id b \<noteq> []"
  shows "blocks (state (deserialize now rnd env (serialize s) st))
           = foldl (\<lambda>m b. m(b_id b \<mapsto> b\<lparr>b_extra := []\<rparr>)) Map.empty (getBlocks s)"
    and "blockOrder (state (deserialize now rnd env (serialize s) st)) = map b_id (getBlocks s)"
    and "metadata (state (deserialize now rnd env (serialize s) st)) = metadata s"
  using addBlocks_serialized [OF assms, of env 0
      "st\<lparr>state := (state st)
         \<lparr>documentId := or_else (dd_documentId (serialize s)) (generateDocumentId now rnd),
          title := or_else (dd_title (serialize s)) ''Untitled Document'',
          version := or_else (dd_version (serialize s)) ''1.0.0'',
          createdAt := or_else_num (dd_createdAt (serialize s)) now,
          updatedAt := or_else_num (dd_updatedAt (serialize s)) now,
          metadata := (case dd_metadata (serialize s) of None \<Rightarrow> [] | Some m \<Rightarrow> m),
          blocks := Map.empty,
          blockOrder := []\<rparr>\<rparr>"]
  by (simp_all add: deserialize_def Let_def state_notify serialize_def)

lemma foldl_upd_lookup:
  assumes "\<forall>b \<in> set L. \<forall>b' \<in> set L. f b = f b' \<longrightarrow> b = b'" and "b \<in> set L"
  shows "foldl (\<lambda>m b. m(f b \<mapsto> g b)) m0 L (f b) = Some (g b)"
proof -
  define F where "F = (\<lambda>m b. m(f b \<mapsto> g b))"
  have F: "F m x k = (if k = f x then Some (g x) else m k)" for m x k
    by (simp add: F_def)
  from assms have "foldl F m0 L (f b) = Some (g b)"
  proof (induction L rule: rev_induct)
    case Nil
    then show ?case by simp
  next
    case (snoc x L)
    have step: "foldl F m0 (L @ [x]) (f b) = F (foldl F m0 L) x (f b)" by simp
    show ?case
    proof (cases "f b = f x")
      case True
      with snoc.prems have "b = x" by auto
      then show ?thesis unfolding step by (simp add: F)
    next
      case False
      with snoc.prems have "b \<in> set L" by auto
      moreover from snoc.prems have "\<forall>b \<in> set L. \<forall>b' \<in> set L. f b = f b' \<longrightarrow> b = b'"
        by auto
      ultimately have "foldl F m0 L (f b) = Some (g b)"
        by (rule snoc.IH [rotated])
      with False show ?thesis unfolding step by (simp add: F)
    qed
  qed
  then show ?thesis by (simp add: F_def)
qed

lemma map_filter_all_Some:
  assumes "\<forall>b \<in> set L. m (f b) = Some (g b)"
  shows "List.map_filter m (map f L) = map g L"
  using assms by (induction L) (simp_all add: List.map_filter_def)

lemma serialize_fields:
  "dd_blocks (serialize x) = Some (map serialize_block (getBlocks x))"
  "dd_metadata (serialize x) = Some (metadata x)"
  by (simp_all add: serialize_def)

lemma getBlocks_lookup:
  assumes "ids_ok s" and "b \<in> set (getBlocks s)"
  shows "blocks s (b_id b) = Some b \<and> b_id b \<noteq> []"
proof -
  from assms(2) obtain k where k: "k \<in> set (blockOrder s)" and b: "blocks s k = Some b"
    by (auto simp: getBlocks_def List.map_filter_def)
  from assms(1) k b have "b_id b = k \<and> k \<noteq> []"
    by (auto simp: ids_ok_def list_all_iff)
  with b show ?thesis by simp
qed

text \<open>
  Claim C7, amended. For every state in which each block listed in the ordering index
  carries, as its \<open>id\<close>, the non-empty key it is stored under, \<^verbatim>\<open>serialize()\<close> followed by
  \<^verbatim>\<open>deserialize()\<close> of that output into any store (a new one included) gives a document
  whose \<^verbatim>\<open>serialize()\<close> output has the same blocks (id, type, content, attributes,
  timestamps) in the same order, and the same metadata.
\<close>

theorem serialize_deserialize_roundtrip:
  assumes "ids_ok s"
  shows "dd_blocks (serialize (state (deserialize now rnd env (serialize s) st)))
           = dd_blocks (serialize s) \<and>
         dd_metadata (serialize (state (deserialize now rnd env (serialize s) st)))
           = dd_metadata (serialize s) \<and>
         map b_id (getBlocks (state (deserialize now rnd env (serialize s) st)))
           = map b_id (getBlocks s)"
proof -
  let ?L = "getBlocks s"
  let ?s' = "state (deserialize now rnd env (serialize s) st)"
  from getBlocks_lookup [OF assms]
  have look: "\<forall>b \<in> set ?L. blocks s (b_id b) = Some b" and ne: "\<forall>b \<in> set ?L. b_id b \<noteq> []"
    by blast+
  from look have fn: "\<forall>b \<in> set ?L. \<forall>b' \<in> set ?L. b_id b = b_id b' \<longrightarrow> b = b'"
    by (metis option.inject)
  have "\<forall>b \<in> set ?L. blocks ?s' (b_id b) = Some (b\<lparr>b_extra := []\<rparr>)"
    unfolding deserialize_serialized(1) [OF ne]
    using foldl_upd_lookup [OF fn, of _ "\<lambda>b. b\<lparr>b_extra := []\<rparr>" Map.empty] by blast
  then have "List.map_filter (blocks ?s') (map b_id ?L) = map (\<lambda>b. b\<lparr>b_extra := []\<rparr>) ?L"
    by (rule map_filter_all_Some)
  then have g: "getBlocks ?s' = map (\<lambda>b. b\<lparr>b_extra := []\<rparr>) ?L"
    by (simp add: getBlocks_def [of ?s'] deserialize_serialized(2) [OF ne])
  have "map serialize_block (map (\<lambda>b. b\<lparr>b_extra := []\<rparr>) ?L) = map serialize_block ?L"
    by (simp add: serialize_block_strip comp_def)
  then have 1: "dd_blocks (serialize ?s') = dd_blocks (serialize s)"
    unfolding serialize_fields g by simp
  have 2: "dd_metadata (serialize ?s') = dd_metadata (serialize s)"
    unfolding serialize_fields deserialize_serialized(3) [OF ne] by simp
  have 3: "map b_id (getBlocks ?s') = map b_id ?L"
    by (simp add: g comp_def)
  from 1 2 3 show ?thesis by blast
qed

lemma demo_blocks_eq:
  "blocks (state demo)
     = [''a'' \<mapsto> \<lparr>b_id = ''a'', b_type = ''text-block'', b_content = ''A'',
                     b_attributes = [], b_createdAt = 1, b_updatedAt = 1, b_extra = []\<rparr>,
        ''b'' \<mapsto> \<lparr>b_id = ''b'', b_type = ''text-block'', b_content = ''B'',
                     b_attributes = [], b_createdAt = 2, b_updatedAt = 2, b_extra = []\<rparr>]"
  by (simp add: demo_def eval_defs)

lemma demo_ids_ok: "ids_ok (state demo)"
  by (simp add: ids_ok_def demo_order demo_blocks_eq)

theorem serialize_deserialize_roundtrip_witness:
  "ids_ok (state demo) \<and>
   dd_blocks (serialize (state (deserialize 9 ''r'' (\<lambda>i. (9, ''r'')) (serialize (state demo)) fresh)))
     = dd_blocks (serialize (state demo)) \<and>
   dd_metadata (serialize (state (deserialize 9 ''r'' (\<lambda>i. (9, ''r'')) (serialize (state demo)) fresh)))
     = dd_metadata (serialize (state demo))"
  using serialize_deserialize_roundtrip [OF demo_ids_ok, of 9 "''r''" "\<lambda>i. (9, ''r'')" fresh]
    demo_ids_ok
  by blast

lemma renamed_facts:
  "blockOrder (state renamed) = [''a'', ''b'']"
  "blocks (state renamed)
     = [''a'' \<mapsto> \<lparr>b_id = ''a'', b_type = ''text-block'', b_content = ''A'',
                     b_attributes = [], b_createdAt = 1, b_updatedAt = 1, b_extra = []\<rparr>,
        ''b'' \<mapsto> \<lparr>b_id = ''a'', b_type = ''text-block'', b_content = ''Z'',
                     b_attributes = [], b_createdAt = 2, b_updatedAt = 3, b_extra = []\<rparr>]"
  by (simp_all add: renamed_def updateBlock_def Let_def state_notify saveToHistory_frame
        demo_blocks_eq demo_order spread_def block_with_def)

lemma renamed_getBlocks:
  "getBlocks (state renamed)
     = [\<lparr>b_id = ''a'', b_type = ''text-block'', b_content = ''A'',
          b_attributes = [], b_createdAt = 1, b_updatedAt = 1, b_extra = []\<rparr>,
        \<lparr>b_id = ''a'', b_type = ''text-block'', b_content = ''Z'',
          b_attributes = [], b_createdAt = 2, b_updatedAt = 3, b_extra = []\<rparr>]"
  by (simp add: getBlocks_def List.map_filter_def renamed_facts)

text \<open>
  \<^verbatim>\<open>updateBlock\<close> merges any field of its argument, the \<open>id\<close> too. Once two stored
  blocks carry the same \<open>id\<close>, \<^verbatim>\<open>deserialize\<close> stores both under that one key and the
  document read back holds the second block twice.
\<close>

theorem serialize_deserialize_roundtrip_counterexample:
  "dd_blocks (serialize (state renamed))
     = Some [\<lparr>d_id = Some ''a'', d_type = Some ''text-block'', d_content = Some ''A'',
               d_attributes = Some [], d_createdAt = Some 1, d_updatedAt = Some 1,
               d_extra = []\<rparr>,
             \<lparr>d_id = Some ''a'', d_type = Some ''text-block'', d_content = Some ''Z'',
               d_attributes = Some [], d_createdAt = Some 2, d_updatedAt = Some 3,
               d_extra = []\<rparr>] \<and>
   dd_blocks (serialize (state
       (deserialize 9 ''r'' (\<lambda>i. (9, ''r'')) (serialize (state renamed)) fresh)))
     = Some [\<lparr>d_id = Some ''a'', d_type = Some ''text-block'', d_content = Some ''Z'',
               d_attributes = Some [], d_createdAt = Some 2, d_updatedAt = Some 3,
               d_extra = []\<rparr>,
             \<lparr>d_id = Some ''a'', d_type = Some ''text-block'', d_content = Some ''Z'',
               d_attributes = Some [], d_createdAt = Some 2, d_updatedAt = Some 3,
               d_extra = []\<rparr>]"
proof -
  let ?s' = "state (deserialize 9 ''r'' (\<lambda>i. (9, ''r'')) (serialize (state renamed)) fresh)"
  have ne: "\<forall>b \<in> set (getBlocks (state renamed)). b_id b \<noteq> []"
    by (simp add: renamed_getBlocks)
  have b: "blocks ?s' ''a''
      = Some \<lparr>b_id = ''a'', b_type = ''text-block'', b_content = ''Z'',
          b_attributes = [], b_createdAt = 2, b_updatedAt = 3, b_extra = []\<rparr>"
    unfolding deserialize_serialized(1) [OF ne] by (simp add: renamed_getBlocks)
  have o: "blockOrder ?s' = [''a'', ''a'']"
    unfolding deserialize_serialized(2) [OF ne] by (simp add: renamed_getBlocks)
  have g: "getBlocks ?s'
     = [\<lparr>b_id = ''a'', b_type = ''text-block'', b_content = ''Z'',
          b_attributes = [], b_createdAt = 2, b_updatedAt = 3, b_extra = []\<rparr>,
        \<lparr>b_id = ''a'', b_type = ''text-block'', b_content = ''Z'',
          b_attributes = [], b_createdAt = 2, b_updatedAt = 3, b_extra = []\<rparr>]"
    by (simp add: getBlocks_def [of ?s'] List.map_filter_def o b)
  show ?thesis
    unfolding serialize_fields g renamed_getBlocks by (simp add: serialize_block_def)
qed

section \<open>Reachable states\<close>

text \<open>
  No operation writes \<open>maxHistorySize\<close>: after any sequence of calls on a constructed
  store the bound is 50, the cursor is in range and the history is within the bound.
\<close>

lemma removeBlock_max:
  "maxHistorySize (state (snd (removeBlock now blockId st))) = maxHistorySize (state st)"
  by (auto simp: removeBlock_def Let_def state_notify saveToHistory_frame split: option.splits)

lemma updateBlock_max:
  "maxHistorySize (state (snd (updateBlock now blockId updates st))) = maxHistorySize (state st)"
  by (auto simp: updateBlock_def Let_def state_notify saveToHistory_frame split: option.splits)

lemma moveBlock_max:
  "maxHistorySize (state (snd (moveBlock now blockId newPosition st))) = maxHistorySize (state st)"
  by (auto simp: moveBlock_def Let_def state_notify saveToHistory_frame)

lemma addBlocks_max:
  "maxHistorySize (state (addBlocks env i bs st)) = maxHistorySize (state st)"
  by (induction bs arbitrary: i st) (simp_all add: addBlock_max)

lemma deserialize_max:
  "maxHistorySize (state (deserialize now rnd env data st)) = maxHistorySize (state st)"
  by (auto simp: deserialize_def Let_def state_notify addBlocks_max split: option.splits)

lemma undo_max:
  "undo now st = Inr (r, st') \<Longrightarrow> maxHistorySize (state st') = maxHistorySize (state st)"
  by (auto simp: undo_def Let_def state_notify applyHistoryItem_history
           split: if_splits option.splits)

lemma redo_max:
  "redo now st = Inr (r, st') \<Longrightarrow> maxHistorySize (state st') = maxHistorySize (state st)"
  by (auto simp: redo_def Let_def state_notify applyHistoryItem_history
           split: if_splits option.splits)

lemma exec_max:
  assumes "exec c st = Inr st'"
  shows "maxHistorySize (state st') = maxHistorySize (state st)"
proof (cases "c_op c")
  case (Mutate m)
  with assms show ?thesis
    by (cases m)
       (auto simp: exec_def perform_def addBlock_max removeBlock_max updateBlock_max
          moveBlock_max)
next
  case Undo
  with assms undo_max [of "c_now c" st] show ?thesis
    by (auto simp: exec_def split: sum.splits)
next
  case Redo
  with assms redo_max [of "c_now c" st] show ?thesis
    by (auto simp: exec_def split: sum.splits)
qed (use assms in \<open>auto simp: exec_def deserialize_max saveToHistory_frame
       selectBlock_def deselectBlock_def clearSelection_def focusBlock_def updateMetadata_def
       setTitle_def clear_def state_notify Let_def\<close>)

lemma run_max:
  "run cs st = Inr st' \<Longrightarrow> maxHistorySize (state st') = maxHistorySize (state st)"
proof (induction cs arbitrary: st)
  case Nil
  then show ?case by simp
next
  case (Cons c cs)
  then obtain st1 where e: "exec c st = Inr st1" and r: "run cs st1 = Inr st'"
    by (auto split: sum.splits)
  from Cons.IH [OF r] exec_max [OF e] show ?case by simp
qed

lemma reachable_hist:
  "\<exists>st'. run cs ((constructor now rnd w)\<lparr>subscribers := subs\<rparr>) = Inr st' \<and>
         hist_inv (state st') \<and> maxHistorySize (state st') = 50"
proof -
  from run_hist_inv [OF constructor_hist_inv [of subs now rnd w], of cs]
  obtain st' where r: "run cs ((constructor now rnd w)\<lparr>subscribers := subs\<rparr>) = Inr st'"
    and h: "hist_inv (state st')" by blast
  from run_max [OF r] have "maxHistorySize (state st') = 50" by (simp add: constructor_def)
  with r h show ?thesis by blast
qed

section \<open>A notification cycle with subscribers that write\<close>

lemma ob_ref_mute [simp]: "ob_ref (mute ob) = ob_ref ob"
  by (cases ob) simp

lemma ob_react_mute [simp]: "ob_react (mute ob) x = mute_reaction (ob_react ob x)"
  by (cases ob) simp

lemma mute_reaction_sel [simp]:
  "r_world (mute_reaction r) = r_world r"
  "r_state (mute_reaction r) = r_state r"
  "r_actions (mute_reaction r) = map (map_set_action mute) (r_actions r)"
  "r_thrown (mute_reaction r) = None"
  by (cases r; simp)+









lemma map_filter_id_Some: "List.map_filter id (map Some xs) = xs"
  by (induction xs) (simp_all add: List.map_filter_def)







text \<open>
  On reading callbacks the loop is the one of \<open>notify\<close>, which the operations of the
  engine use.
\<close>

lemma forEach_live_readers:
  assumes "length obs = length cbs"
    and "\<And>i w. i < length cbs \<Longrightarrow>
           ob_react (obs ! i) (w, s, changes)
             = Reaction (fst ((cbs ! i) w s changes)) s [] (snd ((cbs ! i) w s changes))"
    and "length cbs - i \<le> fuel"
  shows "forEach_live fuel (map Some obs) i s changes w out
         = Some (map Some obs, s,
                 fst (forEach_subscribers (drop i cbs) s changes (w, out)),
                 snd (forEach_subscribers (drop i cbs) s changes (w, out)))"
  using assms(3)
proof (induction fuel arbitrary: i w out)
  case 0
  with assms(1) show ?case by simp
next
  case (Suc fuel)
  show ?case
  proof (cases "length cbs \<le> i")
    case True
    with assms(1) show ?thesis by simp
  next
    case False
    then have i: "i < length cbs" by simp
    from Suc.prems have f: "length cbs - Suc i \<le> fuel" by simp
    from i have d: "drop i cbs = cbs ! i # drop (Suc i) cbs" by (simp add: Cons_nth_drop_Suc)
    obtain w' err where c: "(cbs ! i) w s changes = (w', err)" by (cases "(cbs ! i) w s changes")
    from assms(2) [OF i, of w] c
    have r: "ob_react (obs ! i) (w, s, changes) = Reaction w' s [] err" by simp
    show ?thesis
      using i assms(1) False
      by (cases err) (simp_all add: d c r Let_def Suc.IH [OF f])
  qed
qed

lemma notify_live_of:
  assumes "length (subscribers st) \<le> fuel"
  shows "notify_live fuel now changes (live_of st) = Some (live_of (notify now changes st))"
proof -
  let ?obs = "ls_subscribers (live_of st)"
  have l: "length ?obs = length (subscribers st)" by (simp add: live_of_def)
  have r: "ob_react (?obs ! i) (w, (state st)\<lparr>updatedAt := now\<rparr>, changes)
             = Reaction (fst ((subscribers st ! i) w ((state st)\<lparr>updatedAt := now\<rparr>) changes))
                 ((state st)\<lparr>updatedAt := now\<rparr>) []
                 (snd ((subscribers st ! i) w ((state st)\<lparr>updatedAt := now\<rparr>) changes))"
    if "i < length (subscribers st)" for i w
    using that by (simp add: live_of_def observer_of_def)
  from assms have "length (subscribers st) - 0 \<le> fuel" by simp
  from forEach_live_readers [OF l r this, of "world st" "console st"]
  have "forEach_live fuel (map Some ?obs) 0 ((state st)\<lparr>updatedAt := now\<rparr>) changes
          (world st) (console st)
        = Some (map Some ?obs, (state st)\<lparr>updatedAt := now\<rparr>,
             fst (forEach_subscribers (subscribers st) ((state st)\<lparr>updatedAt := now\<rparr>) changes
                    (world st, console st)),
             snd (forEach_subscribers (subscribers st) ((state st)\<lparr>updatedAt := now\<rparr>) changes
                    (world st, console st)))"
    by simp
  moreover have "ls_state (live_of st) = state st" "ls_world (live_of st) = world st"
    "ls_console (live_of st) = console st" "ls_autoSaveDelay (live_of st) = autoSaveDelay st"
    by (simp_all add: live_of_def)
  ultimately have "notify_live fuel now changes (live_of st)
      = Some ((live_of st)
          \<lparr>ls_state := (state st)\<lparr>updatedAt := now\<rparr>,
           ls_subscribers := ?obs,
           ls_world := fst (forEach_subscribers (subscribers st)
                              ((state st)\<lparr>updatedAt := now\<rparr>) changes (world st, console st)),
           ls_console := snd (forEach_subscribers (subscribers st)
                              ((state st)\<lparr>updatedAt := now\<rparr>) changes (world st, console st)),
           ls_autoSaveTimeout := Some (now + autoSaveDelay st)\<rparr>)"
    by (simp add: notify_live_def map_filter_id_Some case_prod_beta)
  also have "\<dots> = Some (live_of (notify now changes st))"
    by (simp add: live_of_def notify_def scheduleAutoSave_def Let_def)
  finally show ?thesis .
qed

end
